theory Spec2Isabelle
  imports Complex_Main
begin

chapter \<open>The model of the ionisation code\<close>

section \<open>Arithmetic model\<close>

text \<open>
  The ionisation code of \<^verbatim>\<open>Bondi.hpp\<close> computes on C++ \<^verbatim>\<open>double\<close>s. They are
  modelled as the real numbers: every statement below is a statement in exact real
  arithmetic, and says nothing about rounding.

  A real number cannot carry the \<^verbatim>\<open>inf\<close> or \<^verbatim>\<open>NaN\<close> that an IEEE division by zero
  produces, and HOL's own \<open>x / 0 = 0\<close> would hide it. Every division of the source
  whose divisor is computed from cell data is therefore written with \<open>fdiv\<close>, and
  a zero divisor is the error value \<open>DivisionByZero\<close>. An array access outside the
  array (undefined behaviour in C++) is the error value \<open>OutOfRange\<close>.

  \<open>sqrt\<close>, \<open>ln\<close>, \<open>powr\<close> and \<open>root 3\<close> stand for \<^verbatim>\<open>std::sqrt\<close>, \<^verbatim>\<open>std::log\<close>,
  \<^verbatim>\<open>std::pow\<close> and \<^verbatim>\<open>std::cbrt\<close>. They agree with them where the C++ functions have a
  real value (\<open>sqrt\<close> and \<open>powr\<close> on a base that is not negative, \<open>ln\<close> on a positive
  argument), and the theorems use them only there. The loops marked
  \<^verbatim>\<open>omp parallel for\<close> treat each cell on its own; they are run in the order of the
  index.
\<close>

datatype error = DivisionByZero | OutOfRange

definition fdiv :: "real \<Rightarrow> real \<Rightarrow> error + real" where
  "fdiv x y = (if y = 0 then Inl DivisionByZero else Inr (x / y))"

section \<open>Data model\<close>

text \<open>
  The configuration macros of \<^verbatim>\<open>Parameters.hpp\<close> and of the unit headers, which
  CMake substitutes; they are parameters of the model. A quotient of two of them, such
  as \<^verbatim>\<open>UNIT_DENSITY_IN_SI / HYDROGEN_MASS_IN_SI\<close>, is a constant of the program; the
  theorems that depend on its sign assume the constants positive.
\<close>

record Parameters =
  UNIT_LENGTH_IN_SI :: real
  UNIT_DENSITY_IN_SI :: real
  UNIT_TIME_IN_SI :: real
  HYDROGEN_MASS_IN_SI :: real
  SPEED_OF_LIGHT_IN_SI :: real
  MASS_POINT_MASS :: real
  INITIAL_IONISATION_RADIUS :: real

text \<open>
  The fields of \<^verbatim>\<open>Cell\<close> that the ionisation code reads or writes (the source writes
  them with a leading underscore; \<^verbatim>\<open>_length\<close> is \<open>length_acc\<close> here, the list
  function keeps its name).
\<close>

record Cell =
  lowlim :: real
  uplim :: real
  V :: real
  rho :: real
  dt :: real
  sigma :: real
  alphaB :: real
  nfac :: real
  nfac_MC :: real
  jmean :: real
  last_jmean :: real
  length_acc :: real
  ifrac :: real
  ft0 :: real

section \<open>The ionisation balance integrator\<close>

text \<open>
  \<^verbatim>\<open>UPDATE_ION(cells, cell, delta)\<close>: the closed-form update of the ionised fraction of
  \<^verbatim>\<open>cells[cell]\<close>, with its three branches in the order of the source.
\<close>

definition UPDATE_ION :: "Parameters \<Rightarrow> Cell list \<Rightarrow> nat \<Rightarrow> real \<Rightarrow> error + Cell list" where
  "UPDATE_ION u cells cell delta =
    (if length cells \<le> cell then Inl OutOfRange
     else
       let c = cells ! cell;
           ConB = alphaB c * (rho c * (UNIT_DENSITY_IN_SI u / HYDROGEN_MASS_IN_SI u))
       in
       if nfac_MC c = 1 then
         (let i1 = ft0 c + jmean c * delta;
              c1 = (if i1 > 1
                    then c\<lparr>nfac_MC := 1 / 10 ^ 8, ifrac := 1 - 1 / 10 ^ 8\<rparr>
                    else c\<lparr>ifrac := i1, nfac_MC := 1 - i1\<rparr>)
          in Inr (cells[cell := c1\<lparr>ft0 := ifrac c1\<rparr>]))
       else if jmean c = 0 \<or> nfac_MC c = 0 then
         (case fdiv 1 (ft0 c) of
            Inl e \<Rightarrow> Inl e
          | Inr q \<Rightarrow>
             (case fdiv 1 (q + ConB * delta) of
                Inl e \<Rightarrow> Inl e
              | Inr i2 \<Rightarrow> Inr (cells[cell := c\<lparr>ifrac := i2, nfac_MC := 1 - i2, ft0 := i2\<rparr>])))
       else
         (case fdiv (jmean c) ConB of
            Inl e \<Rightarrow> Inl e
          | Inr IoR \<Rightarrow>
             (let root = sqrt (IoR * (IoR + 4)) in
              case fdiv (2 * ft0 c + IoR) root of
                Inl e \<Rightarrow> Inl e
              | Inr arg \<Rightarrow>
                 (let arg2 = 0.5 * ConB * root * delta in
                  case fdiv (arg + tanh arg2) (1 + arg * tanh arg2) of
                    Inl e \<Rightarrow> Inl e
                  | Inr g \<Rightarrow>
                     (let i3 = 0.5 * root * g - 0.5 * IoR
                      in Inr (cells[cell := c\<lparr>ifrac := i3, nfac_MC := 1 - i3, ft0 := i3\<rparr>]))))))"

text \<open>\<open>n\<close> successive calls of \<^verbatim>\<open>UPDATE_ION\<close> on the same cell with the same step.\<close>

primrec UPDATE_ION_n :: "Parameters \<Rightarrow> nat \<Rightarrow> real \<Rightarrow> nat \<Rightarrow> Cell list \<Rightarrow> error + Cell list" where
  "UPDATE_ION_n u cell delta 0 cells = Inr cells"
| "UPDATE_ION_n u cell delta (Suc n) cells =
    (case UPDATE_ION_n u cell delta n cells of
       Inl e \<Rightarrow> Inl e
     | Inr cells' \<Rightarrow> UPDATE_ION u cells' cell delta)"

text \<open>The recombination rate \<^verbatim>\<open>ConB = alphaB * n_H\<close> of a cell, as \<^verbatim>\<open>UPDATE_ION\<close> computes it.\<close>

definition ConB_of :: "Parameters \<Rightarrow> Cell \<Rightarrow> real" where
  "ConB_of u c = alphaB c * (rho c * (UNIT_DENSITY_IN_SI u / HYDROGEN_MASS_IN_SI u))"

text \<open>Concrete inputs on which the theorems below are instantiated.\<close>

definition units_ex :: Parameters where
  "units_ex = \<lparr>UNIT_LENGTH_IN_SI = 1, UNIT_DENSITY_IN_SI = 1, UNIT_TIME_IN_SI = 1,
     HYDROGEN_MASS_IN_SI = 1, SPEED_OF_LIGHT_IN_SI = 1, MASS_POINT_MASS = 1,
     INITIAL_IONISATION_RADIUS = 2\<rparr>"

definition cell_zero :: Cell where
  "cell_zero = \<lparr>lowlim = 0, uplim = 0, V = 0, rho = 0, dt = 0, sigma = 0, alphaB = 0,
     nfac = 0, nfac_MC = 0, jmean = 0, last_jmean = 0, length_acc = 0, ifrac = 0, ft0 = 0\<rparr>"

definition cell_ionised :: Cell where
  "cell_ionised = cell_zero\<lparr>lowlim := 1, uplim := 2, V := 1, rho := 1, dt := 1, sigma := 1,
     alphaB := 2, nfac_MC := 0, ifrac := 1, ft0 := 1\<rparr>"

definition cell_partial :: Cell where
  "cell_partial = cell_zero\<lparr>lowlim := 1, uplim := 2, V := 1, rho := 1, dt := 1, sigma := 1,
     alphaB := 2, nfac_MC := 1 / 2, jmean := 1, ifrac := 1 / 2, ft0 := 1 / 2\<rparr>"

section \<open>The Bondi velocity and the branches of the Lambert W function\<close>

text \<open>
  \<^verbatim>\<open>u2_over_cs2(rinv)\<close>, with \<^verbatim>\<open>rinv = RBONDI / r\<close>. \<^verbatim>\<open>LambertW::lambert_w(x, branch)\<close>
  comes from a header outside this development and is a parameter: the function is
  modelled for every implementation of it. \<open>ln\<close> is \<^verbatim>\<open>std::log\<close> on positive arguments.
\<close>

definition u2_over_cs2 :: "(real \<Rightarrow> int \<Rightarrow> real) \<Rightarrow> real \<Rightarrow> real" where
  "u2_over_cs2 lambert_w rinv =
    (let lambertarg = - exp (3 + 4 * (ln rinv - rinv))
     in if rinv < 1 then - lambert_w lambertarg 0 else - lambert_w lambertarg (- 1))"

text \<open>
  A stand-in for \<^verbatim>\<open>lambert_w\<close> that returns the index of the branch it is asked for,
  to read off which branch a call selects.
\<close>

definition branch_probe :: "real \<Rightarrow> int \<Rightarrow> real" where
  "branch_probe x branch = real_of_int branch"

section \<open>Monte Carlo transport: the packet bank and the propagation of one packet\<close>

text \<open>
  One element of the packet bank \<^verbatim>\<open>P_Store\<close> (\<^verbatim>\<open>Bank.hpp\<close>). \<^verbatim>\<open>Bondi.hpp\<close> also keeps
  the number of packets banked in the previous step in \<^verbatim>\<open>P_Store[0]._currentnbank\<close>.
  Cell indices and packet counts are C++ \<^verbatim>\<open>int\<close>s that never leave the range
  \<open>0 \<dots> 2\<^sup>3\<^sup>1 - 1\<close> here (at most \<open>10001000\<close> packets are counted in a step); they
  are natural numbers.
\<close>

record Bank =
  currentCell :: nat
  currentTaurem :: real
  currentDistance :: real
  futureCell :: nat
  futureTaurem :: real
  futureDistance :: real
  currentnbank :: nat

text \<open>
  The arrays and the by-reference arguments \<^verbatim>\<open>cell\<close>, \<^verbatim>\<open>taurem\<close>, \<^verbatim>\<open>rcurrent\<close>,
  \<^verbatim>\<open>lrem\<close>, \<^verbatim>\<open>stored\<close> that \<^verbatim>\<open>BANK\<close>, \<^verbatim>\<open>ICT\<close> and \<^verbatim>\<open>PROPAGATE\<close> read and update,
  gathered in one state. The bank is a function of the index: its allocation is not part
  of \<^verbatim>\<open>Bondi.hpp\<close>.
\<close>

record transport =
  t_cells :: "Cell list"
  t_P_Store :: "nat \<Rightarrow> Bank"
  t_cell :: nat
  t_taurem :: real
  t_rcurrent :: real
  t_lrem :: real
  t_stored :: nat

text \<open>\<^verbatim>\<open>BANK(P_Store, cell, taurem, radius, stored)\<close>.\<close>

definition BANK :: "transport \<Rightarrow> real \<Rightarrow> transport" where
  "BANK s radius =
     s\<lparr>t_P_Store := (t_P_Store s)(t_stored s := (t_P_Store s (t_stored s))
          \<lparr>futureCell := t_cell s, futureDistance := radius, futureTaurem := t_taurem s\<rparr>),
       t_stored := t_stored s + 1\<rparr>"

text \<open>\<^verbatim>\<open>cells[cell]._length += d\<close>.\<close>

definition add_length :: "Cell list \<Rightarrow> nat \<Rightarrow> real \<Rightarrow> Cell list" where
  "add_length cells cell d = cells[cell := (cells ! cell)\<lparr>length_acc := length_acc (cells ! cell) + d\<rparr>]"

text \<open>
  \<^verbatim>\<open>ICT\<close>: a packet resumed inside a cell, \<open>rcurrent\<close> beyond its lower wall. The three
  branches are: the cell is crossed; the packet is absorbed in the cell; the light-travel
  budget runs out and the packet is banked.
\<close>

definition ICT :: "Parameters \<Rightarrow> transport \<Rightarrow> error + transport" where
  "ICT u s =
    (if length (t_cells s) \<le> t_cell s then Inl OutOfRange
     else
       let c = t_cells s ! t_cell s;
           taucell = sigma c * (V c * UNIT_LENGTH_IN_SI u - t_rcurrent s) * rho c
                     * (UNIT_DENSITY_IN_SI u / HYDROGEN_MASS_IN_SI u) * nfac_MC c
       in
       if t_taurem s > taucell \<and> t_lrem s > V c * UNIT_LENGTH_IN_SI u - t_rcurrent s then
         Inr (s\<lparr>t_cells := add_length (t_cells s) (t_cell s) (V c * UNIT_LENGTH_IN_SI u - t_rcurrent s),
                t_taurem := t_taurem s - taucell,
                t_lrem := t_lrem s - (V c * UNIT_LENGTH_IN_SI u - t_rcurrent s),
                t_cell := t_cell s + 1,
                t_rcurrent := 0\<rparr>)
       else
         (case fdiv (t_taurem s)
                 (rho c * (UNIT_DENSITY_IN_SI u / HYDROGEN_MASS_IN_SI u) * nfac_MC c * sigma c) of
            Inl e \<Rightarrow> Inl e
          | Inr taulength \<Rightarrow>
             if taulength \<le> t_lrem s then
               Inr (s\<lparr>t_cells := add_length (t_cells s) (t_cell s) taulength, t_taurem := 0\<rparr>)
             else
               (let s1 = s\<lparr>t_cells := add_length (t_cells s) (t_cell s) (t_lrem s),
                           t_taurem := t_taurem s
                              - rho c * (UNIT_DENSITY_IN_SI u / HYDROGEN_MASS_IN_SI u)
                                * nfac_MC c * sigma c * t_lrem s,
                           t_rcurrent := t_rcurrent s + t_lrem s\<rparr>;
                    s2 = (if t_stored s1 \<le> 10000000 then BANK s1 (t_rcurrent s1)
                          else s1\<lparr>t_stored := t_stored s1 + 1\<rparr>)
                in Inr (s2\<lparr>t_lrem := 0\<rparr>))))"

text \<open>\<^verbatim>\<open>PROPAGATE\<close>: a packet entering a cell at its lower wall; the same three branches.\<close>

definition PROPAGATE :: "Parameters \<Rightarrow> transport \<Rightarrow> error + transport" where
  "PROPAGATE u s =
    (if length (t_cells s) \<le> t_cell s then Inl OutOfRange
     else
       let c = t_cells s ! t_cell s;
           taucell = sigma c * V c * UNIT_LENGTH_IN_SI u * rho c
                     * (UNIT_DENSITY_IN_SI u / HYDROGEN_MASS_IN_SI u) * nfac_MC c
       in
       if t_taurem s > taucell \<and> t_lrem s > V c * UNIT_LENGTH_IN_SI u then
         Inr (s\<lparr>t_cells := add_length (t_cells s) (t_cell s) (V c * UNIT_LENGTH_IN_SI u),
                t_taurem := t_taurem s - taucell,
                t_lrem := t_lrem s - V c * UNIT_LENGTH_IN_SI u,
                t_cell := t_cell s + 1\<rparr>)
       else
         (case fdiv (t_taurem s)
                 (rho c * (UNIT_DENSITY_IN_SI u / HYDROGEN_MASS_IN_SI u) * nfac_MC c * sigma c) of
            Inl e \<Rightarrow> Inl e
          | Inr taulength \<Rightarrow>
             if taulength \<le> t_lrem s then
               Inr (s\<lparr>t_cells := add_length (t_cells s) (t_cell s) taulength, t_taurem := 0\<rparr>)
             else
               (let s1 = s\<lparr>t_cells := add_length (t_cells s) (t_cell s) (t_lrem s),
                           t_taurem := t_taurem s
                              - rho c * (UNIT_DENSITY_IN_SI u / HYDROGEN_MASS_IN_SI u)
                                * nfac_MC c * sigma c * t_lrem s\<rparr>;
                    s2 = (if t_stored s1 \<le> 10000000 then BANK s1 (t_lrem s1)
                          else s1\<lparr>t_stored := t_stored s1 + 1\<rparr>)
                in Inr (s2\<lparr>t_lrem := 0\<rparr>))))"

text \<open>
  The optical depth per unit path length in a cell, \<open>sigma * n_H * nfac_MC\<close> with
  \<open>n_H = rho * UNIT_DENSITY_IN_SI / HYDROGEN_MASS_IN_SI\<close>, and the path length that a call
  adds to the \<^verbatim>\<open>_length\<close> accumulator of the cell the packet was in.
\<close>

definition depth_per_length :: "Parameters \<Rightarrow> Cell \<Rightarrow> real" where
  "depth_per_length u c =
     sigma c * (rho c * (UNIT_DENSITY_IN_SI u / HYDROGEN_MASS_IN_SI u)) * nfac_MC c"

definition length_added :: "transport \<Rightarrow> transport \<Rightarrow> real" where
  "length_added s s' =
     length_acc (t_cells s' ! t_cell s) - length_acc (t_cells s ! t_cell s)"

section \<open>Monte Carlo transport: the loops and the time step\<close>

text \<open>
  A call of \<^verbatim>\<open>PROPAGATE\<close> that returns moves the packet one cell on or ends it; the
  two loops below terminate by this.
\<close>

lemma PROPAGATE_progress:
  assumes "PROPAGATE u s = Inr s'"
  shows "length (t_cells s') = length (t_cells s) \<and> t_cell s < length (t_cells s) \<and>
     (t_cell s' = t_cell s + 1 \<or> (t_cell s' = t_cell s \<and> (t_taurem s' = 0 \<or> t_lrem s' = 0)))"
  using assms unfolding PROPAGATE_def Let_def
  by (auto simp: fdiv_def add_length_def BANK_def split: if_splits)

text \<open>
  The loop \<^verbatim>\<open>while (taurem > 0.0 && lrem > 0.0) { PROPAGATE(...); }\<close> of a resumed
  packet. It terminates: a call either moves the packet one cell on, or ends it
  (\<open>taurem = 0\<close> or \<open>lrem = 0\<close>), and a cell index outside the array is an error.
\<close>

function propagate_while :: "Parameters \<Rightarrow> transport \<Rightarrow> error + transport" where
  "propagate_while u s =
     (if t_taurem s > 0 \<and> t_lrem s > 0 then
        (case PROPAGATE u s of Inl e \<Rightarrow> Inl e | Inr s' \<Rightarrow> propagate_while u s')
      else Inr s)"
  by pat_completeness auto
termination
proof (relation "measure (\<lambda>(u, s). 2 * (length (t_cells s) - t_cell s)
                  + (if t_taurem s > 0 \<and> t_lrem s > 0 then 1 else 0))")
  show "wf (measure (\<lambda>(u, s). 2 * (length (t_cells s) - t_cell s)
                  + (if t_taurem s > 0 \<and> t_lrem s > 0 then 1 else 0)))" by simp
next
  fix u s s'
  assume "0 < t_taurem s \<and> 0 < t_lrem s" and "PROPAGATE u s = Inr s'"
  then show "((u, s'), (u, s)) \<in> measure (\<lambda>(u, s). 2 * (length (t_cells s) - t_cell s)
                  + (if t_taurem s > 0 \<and> t_lrem s > 0 then 1 else 0))"
    using PROPAGATE_progress [of u s s'] by auto
qed

text \<open>
  The loop of a newly emitted packet, which also stops
  (\<^verbatim>\<open>if (cell > ncell) { break; }\<close>) when the packet has left the grid.
\<close>

function emit_while :: "Parameters \<Rightarrow> nat \<Rightarrow> transport \<Rightarrow> error + transport" where
  "emit_while u ncell s =
     (if t_taurem s > 0 \<and> t_lrem s > 0 then
        (if t_cell s > ncell then Inr s
         else case PROPAGATE u s of Inl e \<Rightarrow> Inl e | Inr s' \<Rightarrow> emit_while u ncell s')
      else Inr s)"
  by pat_completeness auto
termination
proof (relation "measure (\<lambda>(u, ncell, s). 2 * (length (t_cells s) - t_cell s)
                  + (if t_taurem s > 0 \<and> t_lrem s > 0 then 1 else 0))")
  show "wf (measure (\<lambda>(u, ncell, s). 2 * (length (t_cells s) - t_cell s)
                  + (if t_taurem s > 0 \<and> t_lrem s > 0 then 1 else 0)))" by simp
next
  fix u and ncell :: nat and s s'
  assume "0 < t_taurem s \<and> 0 < t_lrem s" and "PROPAGATE u s = Inr s'"
  then show "((u, ncell, s'), (u, ncell, s)) \<in> measure (\<lambda>(u, ncell, s). 2 * (length (t_cells s) - t_cell s)
                  + (if t_taurem s > 0 \<and> t_lrem s > 0 then 1 else 0))"
    using PROPAGATE_progress [of u s s'] by auto
qed

text \<open>
  The constants \<^verbatim>\<open>nphoton\<close>, \<^verbatim>\<open>sizebank\<close> and \<^verbatim>\<open>Qion\<close> of the Monte Carlo
  \<^verbatim>\<open>get_ionisation_radius\<close>.
\<close>

definition nphoton :: nat where
  "nphoton = 1000"

definition sizebank :: nat where
  "sizebank = 10000000"

definition Qion :: real where
  "Qion = 10 ^ 47"

text \<open>A \<^verbatim>\<open>for\<close> loop over the given indices whose body can fail.\<close>

fun for_loop :: "(nat \<Rightarrow> 'a \<Rightarrow> error + 'a) \<Rightarrow> nat list \<Rightarrow> 'a \<Rightarrow> error + 'a" where
  "for_loop body [] s = Inr s"
| "for_loop body (j # js) s =
     (case body j s of Inl e \<Rightarrow> Inl e | Inr s' \<Rightarrow> for_loop body js s')"

text \<open>The body of the first loop: \<^verbatim>\<open>cells[k]._jmean = 0.0; cells[k]._length = 0.0;\<close>.\<close>

definition reset_cell :: "nat \<Rightarrow> Cell list \<Rightarrow> Cell list" where
  "reset_cell k cells = cells[k := (cells ! k)\<lparr>jmean := 0, length_acc := 0\<rparr>]"

text \<open>
  The body of the loop over the packets banked in the previous step (entry \<open>j\<close> of the
  bank), and the body of the loop over the packets emitted in this step. The value
  \<^verbatim>\<open>-log((double) rand() / RAND_MAX)\<close> drawn for packet \<open>j\<close> is \<open>tau j\<close>.
\<close>

definition resume_packet :: "Parameters \<Rightarrow> nat \<Rightarrow> nat \<Rightarrow> transport \<Rightarrow> error + transport" where
  "resume_packet u ncell j s =
     (let s0 = s\<lparr>t_taurem := currentTaurem (t_P_Store s j),
                 t_cell := currentCell (t_P_Store s j),
                 t_rcurrent := currentDistance (t_P_Store s j),
                 t_lrem := SPEED_OF_LIGHT_IN_SI u * dt (t_cells s ! 0) * UNIT_TIME_IN_SI u\<rparr>
      in if t_cell s0 > ncell then Inr s0
         else if t_rcurrent s0 = 0 \<and> t_taurem s0 = 0 then Inr s0
         else (case (if t_rcurrent s0 \<noteq> 0 then ICT u s0 else Inr s0) of
                 Inl e \<Rightarrow> Inl e
               | Inr s1 \<Rightarrow> propagate_while u s1))"

definition emit_packet ::
  "Parameters \<Rightarrow> nat \<Rightarrow> (nat \<Rightarrow> real) \<Rightarrow> nat \<Rightarrow> transport \<Rightarrow> error + transport" where
  "emit_packet u ncell tau j s =
     emit_while u ncell
       (s\<lparr>t_taurem := tau j, t_cell := 1,
          t_lrem := SPEED_OF_LIGHT_IN_SI u * dt (t_cells s ! 1) * UNIT_TIME_IN_SI u\<rparr>)"

text \<open>
  The first part of the step, up to the end of the two packet loops. The step starts by
  reading \<^verbatim>\<open>cells[ncell + 1]\<close>, so the array has at least \<open>ncell + 2\<close> cells. The locals
  \<^verbatim>\<open>taurem\<close>, \<^verbatim>\<open>rcurrent\<close> and \<^verbatim>\<open>cell\<close> are assigned before they are read; they start at
  \<open>0\<close> here. \<open>t_stored\<close> is the counter \<^verbatim>\<open>nbank\<close>.
\<close>

definition transport_phase ::
  "Parameters \<Rightarrow> nat \<Rightarrow> (nat \<Rightarrow> real) \<Rightarrow> Cell list \<Rightarrow> (nat \<Rightarrow> Bank) \<Rightarrow> error + transport" where
  "transport_phase u ncell tau cells P_Store =
     (if length cells \<le> ncell + 1 then Inl OutOfRange
      else
        let nbanki = currentnbank (P_Store 0);
            s0 = \<lparr>t_cells = fold reset_cell [1..<ncell + 1] cells, t_P_Store = P_Store,
                  t_cell = 0, t_taurem = 0, t_rcurrent = 0,
                  t_lrem = SPEED_OF_LIGHT_IN_SI u * dt (cells ! 1) * UNIT_TIME_IN_SI u,
                  t_stored = 0\<rparr>
        in case for_loop (resume_packet u ncell) [0..<nbanki] s0 of
             Inl e \<Rightarrow> Inl e
           | Inr s1 \<Rightarrow> for_loop (emit_packet u ncell tau) [0..<nphoton] s1)"

text \<open>
  The mean intensity of cell \<open>k\<close> from the accumulated path length, and the update of its
  ionisation state (the bodies of the two loops that follow the packet loops).
\<close>

definition set_jmean :: "Parameters \<Rightarrow> nat \<Rightarrow> Cell list \<Rightarrow> error + Cell list" where
  "set_jmean u k cells =
     (let c = cells ! k;
          vcell = (if lowlim c * UNIT_LENGTH_IN_SI u = 0
                   then 4 / 3 * pi * (V c * UNIT_LENGTH_IN_SI u) ^ 3
                   else 4 / 3 * pi * ((uplim c * UNIT_LENGTH_IN_SI u) ^ 3
                                       - (lowlim c * UNIT_LENGTH_IN_SI u) ^ 3))
      in case fdiv (Qion * sigma c * length_acc c) (real nphoton * vcell) of
           Inl e \<Rightarrow> Inl e
         | Inr j \<Rightarrow> Inr (cells[k := c\<lparr>jmean := j\<rparr>]))"

definition update_cell :: "Parameters \<Rightarrow> nat \<Rightarrow> Cell list \<Rightarrow> error + Cell list" where
  "update_cell u k cells =
     (case UPDATE_ION u cells k (dt (cells ! 1) * UNIT_TIME_IN_SI u) of
        Inl e \<Rightarrow> Inl e
      | Inr cells' \<Rightarrow> Inr (cells'[k := (cells' ! k)\<lparr>last_jmean := jmean (cells' ! k)\<rparr>]))"

definition intensity_phase :: "Parameters \<Rightarrow> nat \<Rightarrow> Cell list \<Rightarrow> error + Cell list" where
  "intensity_phase u ncell cells =
     (case for_loop (set_jmean u) [1..<ncell + 1] cells of
        Inl e \<Rightarrow> Inl e
      | Inr cells' \<Rightarrow> for_loop (update_cell u) [1..<ncell + 1] cells')"

text \<open>The body of the loop that shifts the packets banked in this step to the current fields.\<close>

definition rotate_entry :: "nat \<Rightarrow> (nat \<Rightarrow> Bank) \<Rightarrow> (nat \<Rightarrow> Bank)" where
  "rotate_entry j P_Store =
     P_Store(j := (P_Store j)\<lparr>currentTaurem := futureTaurem (P_Store j),
                              currentCell := futureCell (P_Store j),
                              currentDistance := futureDistance (P_Store j),
                              futureTaurem := 0, futureDistance := 0, futureCell := 0\<rparr>)"

text \<open>The scan for the first cell with \<open>nfac_MC \<ge> 0.5\<close>; \<^verbatim>\<open>rion\<close> keeps its value if there is none.\<close>

fun rion_scan :: "Cell list \<Rightarrow> nat list \<Rightarrow> real \<Rightarrow> real" where
  "rion_scan cells [] rion = rion"
| "rion_scan cells (k # ks) rion =
     (if nfac_MC (cells ! k) \<ge> 0.5 then lowlim (cells ! k) else rion_scan cells ks rion)"

text \<open>
  The state that outlives a step: the cells, the bank, \<^verbatim>\<open>rion_old\<close> and the records
  written to the log file \<^verbatim>\<open>bondi_rfile\<close>. The macro is expanded in the main loop of the
  simulation: its \<^verbatim>\<open>break\<close> leaves that loop (\<open>Break\<close>), otherwise the step ends with the
  ionisation radius \<^verbatim>\<open>rion\<close> (\<open>Done\<close>).
\<close>

record simulation =
  sim_cells :: "Cell list"
  sim_P_Store :: "nat \<Rightarrow> Bank"
  sim_rion_old :: real
  sim_bondi_rfile :: "(real \<times> real \<times> real) list"

datatype step_result = Break simulation | Done simulation real

text \<open>\<^verbatim>\<open>get_ionisation_radius()\<close> for \<^verbatim>\<open>IONISATION_MODE_MONTE_CARLO_TRANSFER\<close>.\<close>

definition get_ionisation_radius_MC ::
  "Parameters \<Rightarrow> nat \<Rightarrow> real \<Rightarrow> real \<Rightarrow> (nat \<Rightarrow> real) \<Rightarrow> simulation \<Rightarrow> error + step_result" where
  "get_ionisation_radius_MC u ncell current_integer_time time_conversion_factor tau sim =
     (case transport_phase u ncell tau (sim_cells sim) (sim_P_Store sim) of
        Inl e \<Rightarrow> Inl e
      | Inr s \<Rightarrow>
         (case intensity_phase u ncell (t_cells s) of
            Inl e \<Rightarrow> Inl e
          | Inr cells' \<Rightarrow>
             (let nbank = t_stored s in
              if nbank > sizebank then
                Inr (Break (sim\<lparr>sim_cells := cells', sim_P_Store := t_P_Store s\<rparr>))
              else
                let P1 = fold rotate_entry [0..<nbank] (t_P_Store s);
                    P2 = P1(0 := (P1 0)\<lparr>currentnbank := nbank\<rparr>);
                    rion = rion_scan cells' [1..<ncell + 2] 0;
                    sim1 = sim\<lparr>sim_cells := cells', sim_P_Store := P2\<rparr>
                in if \<bar>rion - sim_rion_old sim\<bar> > 1 / 10 ^ 4 * \<bar>rion + sim_rion_old sim\<bar> then
                     Inr (Done (sim1\<lparr>sim_rion_old := rion,
                                 sim_bondi_rfile := sim_bondi_rfile sim @
                                   [(current_integer_time * time_conversion_factor * UNIT_TIME_IN_SI u,
                                     rion * UNIT_LENGTH_IN_SI u, Qion)]\<rparr>) rion)
                   else Inr (Done sim1 rion))))"

text \<open>
  The life of one packet: a sequence of \<^verbatim>\<open>PROPAGATE\<close> and \<^verbatim>\<open>ICT\<close> calls, and between two
  time steps a passage through the bank, after which the packet meets new cell data
  (\<^verbatim>\<open>UPDATE_ION\<close> has run, the path lengths are reset), a new in-cell distance and a new
  light-travel budget, with the \<open>taurem\<close> and cell it was banked with.
  \<open>packet_lifetime\<close> runs the calls and adds up the optical depth that each call puts
  on the path length it adds.
\<close>

datatype call = Call_PROPAGATE | Call_ICT | Next_step "Cell list" "nat \<Rightarrow> Bank" real real nat

fun packet_lifetime :: "Parameters \<Rightarrow> call list \<Rightarrow> transport \<Rightarrow> error + real \<times> transport" where
  "packet_lifetime u [] s = Inr (0, s)"
| "packet_lifetime u (Call_PROPAGATE # cs) s =
     (case PROPAGATE u s of
        Inl e \<Rightarrow> Inl e
      | Inr s1 \<Rightarrow>
         (case packet_lifetime u cs s1 of
            Inl e \<Rightarrow> Inl e
          | Inr (d, s2) \<Rightarrow>
              Inr (depth_per_length u (t_cells s ! t_cell s) * length_added s s1 + d, s2)))"
| "packet_lifetime u (Call_ICT # cs) s =
     (case ICT u s of
        Inl e \<Rightarrow> Inl e
      | Inr s1 \<Rightarrow>
         (case packet_lifetime u cs s1 of
            Inl e \<Rightarrow> Inl e
          | Inr (d, s2) \<Rightarrow>
              Inr (depth_per_length u (t_cells s ! t_cell s) * length_added s s1 + d, s2)))"
| "packet_lifetime u (Next_step cells' P_Store' rcurrent' lrem' stored' # cs) s =
     packet_lifetime u cs
       (s\<lparr>t_cells := cells', t_P_Store := P_Store', t_rcurrent := rcurrent',
          t_lrem := lrem', t_stored := stored'\<rparr>)"

text \<open>Concrete packets on which the theorems below are instantiated.\<close>

definition bank_zero :: Bank where
  "bank_zero = \<lparr>currentCell = 0, currentTaurem = 0, currentDistance = 0,
     futureCell = 0, futureTaurem = 0, futureDistance = 0, currentnbank = 0\<rparr>"

definition packet_ex :: transport where
  "packet_ex = \<lparr>t_cells = [cell_zero, cell_partial, cell_partial],
     t_P_Store = (\<lambda>j. bank_zero), t_cell = 1, t_taurem = 5, t_rcurrent = 0,
     t_lrem = 3 / 2, t_stored = 0\<rparr>"

definition packet_ionised :: transport where
  "packet_ionised = \<lparr>t_cells = [cell_zero, cell_ionised],
     t_P_Store = (\<lambda>j. bank_zero), t_cell = 1, t_taurem = 5, t_rcurrent = 0,
     t_lrem = 1 / 2, t_stored = 0\<rparr>"

definition lifetime_ex :: "call list" where
  "lifetime_ex = [Call_PROPAGATE, Call_PROPAGATE,
     Next_step [cell_zero, cell_partial, cell_partial\<lparr>sigma := 100\<rparr>] (\<lambda>j. bank_zero) (1 / 2) 20 0,
     Call_ICT]"

section \<open>Packets that are banked, and a step that overflows the bank\<close>

text \<open>
  The states in which a call takes its third branch, the one that banks the packet:
  the cell is not crossed, and the light-travel budget ends before the optical depth
  does.
\<close>

definition PROPAGATE_banks :: "Parameters \<Rightarrow> transport \<Rightarrow> bool" where
  "PROPAGATE_banks u s =
     (t_cell s < length (t_cells s)
      \<and> \<not> (t_taurem s > depth_per_length u (t_cells s ! t_cell s)
                           * (V (t_cells s ! t_cell s) * UNIT_LENGTH_IN_SI u)
           \<and> t_lrem s > V (t_cells s ! t_cell s) * UNIT_LENGTH_IN_SI u)
      \<and> depth_per_length u (t_cells s ! t_cell s) \<noteq> 0
      \<and> t_lrem s < t_taurem s / depth_per_length u (t_cells s ! t_cell s))"

definition ICT_banks :: "Parameters \<Rightarrow> transport \<Rightarrow> bool" where
  "ICT_banks u s =
     (t_cell s < length (t_cells s)
      \<and> \<not> (t_taurem s > depth_per_length u (t_cells s ! t_cell s)
                           * (V (t_cells s ! t_cell s) * UNIT_LENGTH_IN_SI u - t_rcurrent s)
           \<and> t_lrem s > V (t_cells s ! t_cell s) * UNIT_LENGTH_IN_SI u - t_rcurrent s)
      \<and> depth_per_length u (t_cells s ! t_cell s) \<noteq> 0
      \<and> t_lrem s < t_taurem s / depth_per_length u (t_cells s ! t_cell s))"

text \<open>
  A step that overflows the bank: \<open>10000000\<close> packets come from the previous step, each
  with \<open>taurem = 5\<close> at the lower wall of cell \<open>1\<close>, and \<open>1000\<close> new ones are emitted with
  \<open>taurem = 5\<close>; the cell is half neutral and wider than light travels in the step, so
  every packet is banked again. \<open>transport_inv\<close> is what the packet loops preserve
  on this input.
\<close>

definition cell_ghost :: Cell where
  "cell_ghost = cell_zero\<lparr>dt := 1 / 8\<rparr>"

definition bank_full :: Bank where
  "bank_full = bank_zero\<lparr>currentCell := 1, currentTaurem := 5, currentnbank := 10000000\<rparr>"

definition tau_ex :: "nat \<Rightarrow> real" where
  "tau_ex j = 5"

definition sim_full :: simulation where
  "sim_full = \<lparr>sim_cells = [cell_ghost, cell_partial, cell_zero],
     sim_P_Store = (\<lambda>j. bank_full), sim_rion_old = 0, sim_bondi_rfile = []\<rparr>"

definition transport_inv :: "transport \<Rightarrow> bool" where
  "transport_inv s =
     ((\<exists>L. 0 \<le> L \<and>
         t_cells s = [cell_ghost, cell_partial\<lparr>jmean := 0, length_acc := L\<rparr>, cell_zero])
      \<and> (\<forall>j. currentCell (t_P_Store s j) = 1 \<and> currentTaurem (t_P_Store s j) = 5
             \<and> currentDistance (t_P_Store s j) = 0))"

definition packet_overflow :: transport where
  "packet_overflow = packet_ex\<lparr>t_lrem := 1 / 2, t_stored := 10000001\<rparr>"

section \<open>The neutral fraction profile\<close>





section \<open>The self-consistent ionisation radius\<close>

text \<open>
  The variables that \<^verbatim>\<open>ionisation_initialize()\<close> declares and \<^verbatim>\<open>do_ionisation()\<close> uses.
\<close>

record ionisation =
  bondi_S :: real
  bondi_A :: real
  const_bondi_Q :: real
  central_mass :: real
  rion_old :: real
  bondi_rfile :: "(real \<times> real \<times> real) list"

text \<open>
  The body of the first loop of \<^verbatim>\<open>ionisation_initialize\<close> and of \<^verbatim>\<open>get_ionisation_radius\<close>:
  the absorption weight \<open>Cshell = Vshell * rho\<^sup>2\<close> of the shell is stored in \<^verbatim>\<open>_nfac\<close>.
\<close>

definition Cshell :: "Cell \<Rightarrow> real" where
  "Cshell c =
     (let rmin = lowlim c; rmax = uplim c;
          Vshell = (rmax * rmax * rmax - rmin * rmin * rmin) / 3
      in Vshell * rho c * rho c)"

definition set_weight :: "nat \<Rightarrow> Cell list \<Rightarrow> Cell list" where
  "set_weight i cells = cells[i := (cells ! i)\<lparr>nfac := Cshell (cells ! i)\<rparr>]"

text \<open>The body of the loop of \<^verbatim>\<open>ionisation_initialize\<close> that adds up \<^verbatim>\<open>const_bondi_Q\<close>.\<close>

definition add_bondi_Q :: "Parameters \<Rightarrow> Cell list \<Rightarrow> nat \<Rightarrow> real \<Rightarrow> error + real" where
  "add_bondi_Q u cells i Q =
     (let rmin = lowlim (cells ! i); rmax = uplim (cells ! i) in
      if rmax < INITIAL_IONISATION_RADIUS u then Inr (Q + nfac (cells ! i))
      else if rmin < INITIAL_IONISATION_RADIUS u then
        (case fdiv (INITIAL_IONISATION_RADIUS u * INITIAL_IONISATION_RADIUS u
                      * INITIAL_IONISATION_RADIUS u - rmin * rmin * rmin)
                   (rmax * rmax * rmax - rmin * rmin * rmin) of
           Inl e \<Rightarrow> Inl e
         | Inr ifac \<Rightarrow> Inr (Q + nfac (cells ! i) * ifac))
      else Inr Q)"

text \<open>
  \<^verbatim>\<open>ionisation_initialize()\<close>, for the cells \<open>1 \<dots> ncell\<close> of the array and the
  transition width that the main program passes down.
\<close>

definition ionisation_initialize ::
  "Parameters \<Rightarrow> nat \<Rightarrow> real \<Rightarrow> Cell list \<Rightarrow> error + Cell list \<times> ionisation" where
  "ionisation_initialize u ncell transition_width cells =
     (if 0 < ncell \<and> length cells \<le> ncell then Inl OutOfRange
      else
        let S = (if transition_width > 0 then 3 / (2 * transition_width) else 0);
            A = - 16 * S * S * S / 27;
            cells1 = fold set_weight [1..<ncell + 1] cells
        in case for_loop (add_bondi_Q u cells1) [1..<ncell + 1] 0 of
             Inl e \<Rightarrow> Inl e
           | Inr Q \<Rightarrow>
               Inr (cells1, \<lparr>bondi_S = S, bondi_A = A, const_bondi_Q = Q,
                             central_mass = MASS_POINT_MASS u, rion_old = 0,
                             bondi_rfile = []\<rparr>))"

text \<open>\<^verbatim>\<open>get_bondi_Q_factor\<close>; \<open>powr\<close> is \<^verbatim>\<open>std::pow\<close> on a non-negative base.\<close>

definition get_bondi_Q_factor :: "real \<Rightarrow> real" where
  "get_bondi_Q_factor M = 7.96185873 * (M powr 2.47692987 - 1) + 1"

text \<open>
  The body of the sequential scan of \<^verbatim>\<open>get_ionisation_radius\<close>, on the pair of \<^verbatim>\<open>Cion\<close>
  and \<^verbatim>\<open>rion\<close>; \<open>root 3\<close> is \<^verbatim>\<open>std::cbrt\<close>.
\<close>

definition scan_shell :: "Cell list \<Rightarrow> nat \<Rightarrow> real \<times> real \<Rightarrow> error + real \<times> real" where
  "scan_shell cells i st =
     (let Cion = fst st; rion = snd st in
      if Cion > 0 then
        (let rmin = lowlim (cells ! i); rmax = uplim (cells ! i) in
         case fdiv Cion (nfac (cells ! i)) of
           Inl e \<Rightarrow> Inl e
         | Inr q \<Rightarrow>
            (let ifac = min 1 q;
                 rion1 = (if ifac < 1 then
                            (if ifac > 0 then
                               root 3 (ifac * rmax * rmax * rmax
                                        + (1 - ifac) * rmin * rmin * rmin)
                             else rion)
                          else rmax)
             in Inr (Cion - ifac * nfac (cells ! i), rion1)))
      else Inr st)"

text \<open>
  \<^verbatim>\<open>get_ionisation_radius()\<close> for \<^verbatim>\<open>IONISATION_MODE_SELF_CONSISTENT\<close>: the weights, the
  scan, and the record written to the log file when the radius has moved.
\<close>

definition get_ionisation_radius ::
  "Parameters \<Rightarrow> nat \<Rightarrow> real \<Rightarrow> real \<Rightarrow> Cell list \<Rightarrow> ionisation
     \<Rightarrow> error + Cell list \<times> ionisation \<times> real" where
  "get_ionisation_radius u ncell current_integer_time time_conversion_factor cells ion =
     (if 0 < ncell \<and> length cells \<le> ncell then Inl OutOfRange
      else
        let cells1 = fold set_weight [1..<ncell + 1] cells;
            Cion = const_bondi_Q ion
                     * get_bondi_Q_factor (central_mass ion / MASS_POINT_MASS u)
        in case for_loop (scan_shell cells1) [1..<ncell + 1] (Cion, 0) of
             Inl e \<Rightarrow> Inl e
           | Inr st \<Rightarrow>
              (let rion = snd st in
               if \<bar>rion - rion_old ion\<bar> > 1 / 10 ^ 4 * \<bar>rion + rion_old ion\<bar> then
                 Inr (cells1,
                      ion\<lparr>rion_old := rion,
                          bondi_rfile := bondi_rfile ion @
                            [(current_integer_time * time_conversion_factor * UNIT_TIME_IN_SI u,
                              rion * UNIT_LENGTH_IN_SI u, Cion)]\<rparr>,
                      rion)
               else Inr (cells1, ion, rion)))"



section \<open>The profile of the smooth transition\<close>







section \<open>Grids of contiguous shells\<close>

text \<open>
  A grid of \<open>ncell\<close> shells that follow one another: every shell has \<open>lowlim < uplim\<close>,
  and each begins where the one before it ends. \<open>same_field\<close>: two cell arrays with the
  same shells and the same density.
\<close>

definition grid_ok :: "nat \<Rightarrow> Cell list \<Rightarrow> bool" where
  "grid_ok ncell cells =
     (ncell < length cells
      \<and> (\<forall>i\<in>{1..ncell}. lowlim (cells ! i) < uplim (cells ! i))
      \<and> (\<forall>i\<in>{1..<ncell}. uplim (cells ! i) = lowlim (cells ! Suc i)))"

definition same_field :: "nat \<Rightarrow> Cell list \<Rightarrow> Cell list \<Rightarrow> bool" where
  "same_field ncell cells cells' =
     (length cells' = length cells
      \<and> (\<forall>i\<in>{1..ncell}.
            lowlim (cells' ! i) = lowlim (cells ! i) \<and> uplim (cells' ! i) = uplim (cells ! i)
            \<and> rho (cells' ! i) = rho (cells ! i)))"

text \<open>
  A uniform grid of three shells \<open>[1, 2]\<close>, \<open>[2, 3]\<close>, \<open>[3, 4]\<close> of density \<open>1\<close> between
  two ghost cells, with absorption weights \<open>7/3\<close>, \<open>19/3\<close> and \<open>37/3\<close>; a state whose
  budget is the weight of the first two shells; and a configuration whose initial
  ionisation radius \<open>5/2\<close> lies inside the second shell.
\<close>

definition grid_shell :: "real \<Rightarrow> real \<Rightarrow> Cell" where
  "grid_shell a b = cell_zero\<lparr>lowlim := a, uplim := b, V := b - a, rho := 1\<rparr>"

definition cells_grid :: "Cell list" where
  "cells_grid = [cell_zero, grid_shell 1 2, grid_shell 2 3, grid_shell 3 4, cell_zero]"


definition units_grid :: Parameters where
  "units_grid = units_ex\<lparr>INITIAL_IONISATION_RADIUS := 5 / 2\<rparr>"

chapter \<open>Properties\<close>

section \<open>Pure recombination\<close>

lemma UPDATE_ION_recombination:
  assumes "cell < length cells" and "nfac_MC (cells ! cell) \<noteq> 1"
    and "jmean (cells ! cell) = 0 \<or> nfac_MC (cells ! cell) = 0"
    and "ft0 (cells ! cell) \<noteq> 0"
    and "1 / ft0 (cells ! cell) + ConB_of u (cells ! cell) * delta \<noteq> 0"
  shows "UPDATE_ION u cells cell delta =
    Inr (cells[cell := (cells ! cell)\<lparr>
       ifrac := 1 / (1 / ft0 (cells ! cell) + ConB_of u (cells ! cell) * delta),
       nfac_MC := 1 - 1 / (1 / ft0 (cells ! cell) + ConB_of u (cells ! cell) * delta),
       ft0 := 1 / (1 / ft0 (cells ! cell) + ConB_of u (cells ! cell) * delta)\<rparr>])"
  using assms by (simp add: UPDATE_ION_def fdiv_def ConB_of_def Let_def)

lemma UPDATE_ION_n_decay:
  assumes "cell < length cells" and "ft0 (cells ! cell) = 1" and "jmean (cells ! cell) = 0"
    and "nfac_MC (cells ! cell) \<noteq> 1" and "0 < ConB_of u (cells ! cell)" and "0 < delta"
  shows "\<exists>cells'. UPDATE_ION_n u cell delta n cells = Inr cells' \<and> length cells' = length cells
     \<and> ft0 (cells' ! cell) = 1 / (1 + real n * ConB_of u (cells ! cell) * delta)
     \<and> jmean (cells' ! cell) = 0 \<and> nfac_MC (cells' ! cell) \<noteq> 1
     \<and> ConB_of u (cells' ! cell) = ConB_of u (cells ! cell)
     \<and> (0 < n \<longrightarrow> ifrac (cells' ! cell) = 1 / (1 + real n * ConB_of u (cells ! cell) * delta))"
proof (induction n)
  case 0
  show ?case using assms by simp
next
  case (Suc n)
  let ?K = "ConB_of u (cells ! cell)"
  from Suc obtain cs where run: "UPDATE_ION_n u cell delta n cells = Inr cs"
    and len: "length cs = length cells"
    and f: "ft0 (cs ! cell) = 1 / (1 + real n * ?K * delta)"
    and j: "jmean (cs ! cell) = 0" and nf: "nfac_MC (cs ! cell) \<noteq> 1"
    and K: "ConB_of u (cs ! cell) = ?K" by blast
  have pos: "0 < 1 + real n * ?K * delta" using assms(5,6)
    by (simp add: add_pos_nonneg)
  have f0: "ft0 (cs ! cell) \<noteq> 0" using f pos by simp
  have inv: "1 / ft0 (cs ! cell) = 1 + real n * ?K * delta" using f pos by simp
  have sum: "1 / ft0 (cs ! cell) + ConB_of u (cs ! cell) * delta = 1 + real (Suc n) * ?K * delta"
    using inv K by (simp add: algebra_simps)
  have pos': "0 < 1 + real (Suc n) * ?K * delta" using assms(5,6)
    by (intro add_pos_nonneg) simp_all
  have step: "UPDATE_ION u cs cell delta =
    Inr (cs[cell := (cs ! cell)\<lparr>
       ifrac := 1 / (1 + real (Suc n) * ?K * delta),
       nfac_MC := 1 - 1 / (1 + real (Suc n) * ?K * delta),
       ft0 := 1 / (1 + real (Suc n) * ?K * delta)\<rparr>])"
    using UPDATE_ION_recombination [of cell cs u delta] assms(1) len nf j f0 sum pos'
    by simp
  have lt1: "1 / (1 + real (Suc n) * ?K * delta) > 0" using pos' by simp
  show ?case using run step len assms(1) lt1 K j nf
    by (simp add: ConB_of_def)
qed

lemma recombination_closed_form_limit:
  fixes K :: real
  assumes "0 < K"
  shows "(\<lambda>n. 1 / (1 + real n * K)) \<longlonglongrightarrow> 0"
proof -
  have "filterlim (\<lambda>n. real n * K) at_top sequentially"
    by (rule filterlim_at_top_mult_tendsto_pos [OF tendsto_const assms filterlim_real_sequentially])
  then have "filterlim (\<lambda>n. 1 + real n * K) at_top sequentially"
    by (intro filterlim_tendsto_add_at_top [OF tendsto_const])
  then show ?thesis
    by (intro real_tendsto_divide_at_top [OF tendsto_const])
qed

lemma recombination_closed_form_decreasing:
  fixes K :: real
  assumes "0 < K" and "m < n"
  shows "1 / (1 + real n * K) < 1 / (1 + real m * K)"
proof -
  have "0 < 1 + real m * K" using assms(1) by (intro add_pos_nonneg) simp_all
  moreover have "1 + real m * K < 1 + real n * K" using assms by simp
  ultimately show ?thesis by (simp add: frac_less2)
qed

text \<open>
  Claim C7. In a cell that is not fully neutral, with \<open>jmean = 0\<close> or \<open>nfac_MC = 0\<close>,
  \<^verbatim>\<open>UPDATE_ION\<close> sets \<open>ifrac\<close> to \<open>1 / (1 / ft0 + ConB * delta)\<close> (where the two
  divisions are defined). Starting from \<open>ft0 = 1\<close> with \<open>jmean = 0\<close>, \<open>n\<close> successive calls
  with \<open>ConB > 0\<close> and \<open>delta > 0\<close> all succeed and leave
  \<open>ifrac = 1 / (1 + n * ConB * delta)\<close>, a strictly decreasing sequence that converges
  to \<open>0\<close>.
\<close>

theorem UPDATE_ION_recombination_decay:
  assumes "cell < length cells"
  shows "(nfac_MC (cells ! cell) \<noteq> 1 \<and> (jmean (cells ! cell) = 0 \<or> nfac_MC (cells ! cell) = 0)
        \<and> ft0 (cells ! cell) \<noteq> 0
        \<and> 1 / ft0 (cells ! cell) + ConB_of u (cells ! cell) * delta \<noteq> 0
      \<longrightarrow> (\<exists>cells'. UPDATE_ION u cells cell delta = Inr cells' \<and>
             ifrac (cells' ! cell) =
               1 / (1 / ft0 (cells ! cell) + ConB_of u (cells ! cell) * delta)))
    \<and> (ft0 (cells ! cell) = 1 \<and> jmean (cells ! cell) = 0 \<and> nfac_MC (cells ! cell) \<noteq> 1
        \<and> 0 < ConB_of u (cells ! cell) \<and> 0 < delta
      \<longrightarrow> (\<forall>n>0. \<exists>cells'. UPDATE_ION_n u cell delta n cells = Inr cells' \<and>
             ifrac (cells' ! cell) = 1 / (1 + real n * ConB_of u (cells ! cell) * delta))
        \<and> (\<forall>m n. m < n \<longrightarrow>
              1 / (1 + real n * ConB_of u (cells ! cell) * delta)
                < 1 / (1 + real m * ConB_of u (cells ! cell) * delta))
        \<and> (\<lambda>n. 1 / (1 + real n * ConB_of u (cells ! cell) * delta)) \<longlonglongrightarrow> 0)"
proof (intro conjI impI)
  assume h: "nfac_MC (cells ! cell) \<noteq> 1 \<and> (jmean (cells ! cell) = 0 \<or> nfac_MC (cells ! cell) = 0)
        \<and> ft0 (cells ! cell) \<noteq> 0
        \<and> 1 / ft0 (cells ! cell) + ConB_of u (cells ! cell) * delta \<noteq> 0"
  show "\<exists>cells'. UPDATE_ION u cells cell delta = Inr cells' \<and>
             ifrac (cells' ! cell) =
               1 / (1 / ft0 (cells ! cell) + ConB_of u (cells ! cell) * delta)"
    using UPDATE_ION_recombination [of cell cells u delta] assms h by simp
next
  assume h: "ft0 (cells ! cell) = 1 \<and> jmean (cells ! cell) = 0 \<and> nfac_MC (cells ! cell) \<noteq> 1
        \<and> 0 < ConB_of u (cells ! cell) \<and> 0 < delta"
  show "\<forall>n>0. \<exists>cells'. UPDATE_ION_n u cell delta n cells = Inr cells' \<and>
             ifrac (cells' ! cell) = 1 / (1 + real n * ConB_of u (cells ! cell) * delta)"
  proof (intro allI impI)
    fix n :: nat
    assume "0 < n"
    then show "\<exists>cells'. UPDATE_ION_n u cell delta n cells = Inr cells' \<and>
             ifrac (cells' ! cell) = 1 / (1 + real n * ConB_of u (cells ! cell) * delta)"
      using UPDATE_ION_n_decay [of cell cells u delta n] assms h by blast
  qed
next
  assume h: "ft0 (cells ! cell) = 1 \<and> jmean (cells ! cell) = 0 \<and> nfac_MC (cells ! cell) \<noteq> 1
        \<and> 0 < ConB_of u (cells ! cell) \<and> 0 < delta"
  then have K: "0 < ConB_of u (cells ! cell) * delta" by simp
  show "\<forall>m n. m < n \<longrightarrow>
              1 / (1 + real n * ConB_of u (cells ! cell) * delta)
                < 1 / (1 + real m * ConB_of u (cells ! cell) * delta)"
    using recombination_closed_form_decreasing [OF K] by (simp add: mult.assoc)
next
  assume h: "ft0 (cells ! cell) = 1 \<and> jmean (cells ! cell) = 0 \<and> nfac_MC (cells ! cell) \<noteq> 1
        \<and> 0 < ConB_of u (cells ! cell) \<and> 0 < delta"
  then have K: "0 < ConB_of u (cells ! cell) * delta" by simp
  show "(\<lambda>n. 1 / (1 + real n * ConB_of u (cells ! cell) * delta)) \<longlonglongrightarrow> 0"
    using recombination_closed_form_limit [OF K] by (simp add: mult.assoc)
qed

theorem UPDATE_ION_recombination_decay_witness:
  "(1::nat) < length [cell_zero, cell_ionised]
   \<and> ft0 ([cell_zero, cell_ionised] ! 1) = 1 \<and> jmean ([cell_zero, cell_ionised] ! 1) = 0
   \<and> nfac_MC ([cell_zero, cell_ionised] ! 1) = 0
   \<and> ConB_of units_ex ([cell_zero, cell_ionised] ! 1) = 2
   \<and> (\<exists>cells'. UPDATE_ION units_ex [cell_zero, cell_ionised] 1 3 = Inr cells' \<and>
         ifrac (cells' ! 1) = 1 / 7)
   \<and> (\<exists>cells'. UPDATE_ION_n units_ex 1 3 2 [cell_zero, cell_ionised] = Inr cells' \<and>
         ifrac (cells' ! 1) = 1 / 13)
   \<and> (1::real) / 13 < 1 / 7"
proof -
  let ?cs = "[cell_zero, cell_ionised]"
  have len: "(1::nat) < length ?cs" by simp
  have f: "ft0 (?cs ! 1) = 1" and j: "jmean (?cs ! 1) = 0" and nf: "nfac_MC (?cs ! 1) = 0"
    by (simp_all add: cell_ionised_def cell_zero_def)
  have K: "ConB_of units_ex (?cs ! 1) = 2"
    by (simp add: ConB_of_def units_ex_def cell_ionised_def cell_zero_def)
  note inst = UPDATE_ION_recombination_decay [OF len, of units_ex 3]
  have one: "\<exists>cells'. UPDATE_ION units_ex ?cs 1 3 = Inr cells' \<and> ifrac (cells' ! 1) = 1 / 7"
    using inst f j nf K by simp
  have all: "\<forall>n>0. \<exists>cells'. UPDATE_ION_n units_ex 1 3 n ?cs = Inr cells' \<and>
       ifrac (cells' ! 1) = 1 / (1 + real n * 2 * 3)"
    using inst f j nf K by simp
  have two: "\<exists>cells'. UPDATE_ION_n units_ex 1 3 2 ?cs = Inr cells' \<and> ifrac (cells' ! 1) = 1 / 13"
    using all [rule_format, of 2] by simp
  show ?thesis using len f j nf K one two by simp
qed

section \<open>The invariant of the ionisation balance integrator\<close>

text \<open>
  The algebra of the general branch: with \<open>r\<^sup>2 = I (I + 4)\<close>, \<open>0 \<le> f \<le> 1\<close> and
  \<open>0 \<le> t \<le> 1\<close> the closed-form value lies between \<open>0\<close> and \<open>1\<close>.
\<close>

lemma riccati_bounds:
  fixes I r f t a :: real
  assumes I: "0 \<le> I" and r: "0 < r" and rr: "r * r = I * (I + 4)"
    and f0: "0 \<le> f" and f1: "f \<le> 1" and t0: "0 \<le> t" and t1: "t \<le> 1"
    and a: "a = (2 * f + I) / r"
  shows "0 < 1 + a * t"
    and "0 \<le> 0.5 * r * ((a + t) / (1 + a * t)) - 0.5 * I"
    and "0.5 * r * ((a + t) / (1 + a * t)) - 0.5 * I \<le> 1"
proof -
  have a0: "0 \<le> a" using a I f0 r by simp
  have ar: "a * r = 2 * f + I" using a r by simp
  show d: "0 < 1 + a * t" using a0 t0 by (simp add: add_pos_nonneg)
  have Ir: "I \<le> r"
  proof (rule ccontr)
    assume "\<not> I \<le> r"
    then have "r < I" by simp
    then have "r * r < I * I" using r by (intro mult_strict_mono) simp_all
    then show False using rr I by (simp add: algebra_simps)
  qed
  have Ia: "I * a \<le> r"
  proof -
    have "I * a * r = I * (2 * f + I)" using ar by (simp add: algebra_simps)
    also have "\<dots> \<le> I * (I + 4)" using I f1 by (intro mult_left_mono) simp_all
    also have "\<dots> = r * r" using rr by simp
    finally have "I * a * r \<le> r * r" .
    then show ?thesis using r by simp
  qed
  have Iat: "I * a * t \<le> r * t" using Ia t0 by (rule mult_right_mono)
  have num: "r * (a + t) - I * (1 + a * t) = 2 * f + (r * t - I * a * t)"
    using ar by (simp add: algebra_simps)
  have eq: "0.5 * r * ((a + t) / (1 + a * t)) - 0.5 * I
      = (r * (a + t) - I * (1 + a * t)) / (2 * (1 + a * t))"
    using d by (simp add: field_simps)
  have "0 \<le> r * (a + t) - I * (1 + a * t)" using num Iat f0 by simp
  then show "0 \<le> 0.5 * r * ((a + t) / (1 + a * t)) - 0.5 * I"
    using d unfolding eq by simp
  have I2a: "(I + 2) * a * r = I * (I + 4) - (2 * I * (1 - f) - 4 * f)"
    using ar by (simp add: algebra_simps)
  have "(r - (I + 2) * a) * r = 2 * I * (1 - f) - 4 * f"
    using I2a rr by (simp add: algebra_simps)
  also have "\<dots> \<le> 2 * (1 - f) * I" using f0 by (simp add: algebra_simps)
  also have "\<dots> \<le> 2 * (1 - f) * r" using Ir f1 by (intro mult_left_mono) simp_all
  finally have "(r - (I + 2) * a) * r \<le> 2 * (1 - f) * r" .
  then have bnd: "r - (I + 2) * a \<le> 2 * (1 - f)" using r by simp
  have "t * (r - (I + 2) * a) \<le> 2 * (1 - f)"
  proof (cases "0 \<le> r - (I + 2) * a")
    case True
    have "t * (r - (I + 2) * a) \<le> 1 * (r - (I + 2) * a)"
      using t1 True by (rule mult_right_mono)
    then show ?thesis using bnd by simp
  next
    case False
    then have "t * (r - (I + 2) * a) \<le> 0" using t0 by (simp add: mult_nonneg_nonpos)
    then show ?thesis using f1 by simp
  qed
  then have "r * (a + t) - I * (1 + a * t) \<le> 2 * (1 + a * t)"
    using ar by (simp add: algebra_simps)
  then show "0.5 * r * ((a + t) / (1 + a * t)) - 0.5 * I \<le> 1"
    using d unfolding eq by (simp add: field_simps)
qed

lemma UPDATE_ION_neutral_branch:
  assumes "cell < length cells" and "nfac_MC (cells ! cell) = 1" and "ft0 (cells ! cell) = 0"
    and "0 \<le> jmean (cells ! cell)" and "0 \<le> delta"
  shows "\<exists>cells'. UPDATE_ION u cells cell delta = Inr cells' \<and>
     nfac_MC (cells' ! cell) + ifrac (cells' ! cell) = 1 \<and>
     0 \<le> nfac_MC (cells' ! cell) \<and> nfac_MC (cells' ! cell) \<le> 1 \<and>
     0 \<le> ifrac (cells' ! cell) \<and> ifrac (cells' ! cell) \<le> 1"
  using assms by (simp add: UPDATE_ION_def Let_def)

lemma UPDATE_ION_recombination_branch:
  assumes "cell < length cells" and "nfac_MC (cells ! cell) \<noteq> 1"
    and "jmean (cells ! cell) = 0 \<or> nfac_MC (cells ! cell) = 0"
    and "0 < ft0 (cells ! cell)" and "ft0 (cells ! cell) \<le> 1"
    and "0 \<le> ConB_of u (cells ! cell)" and "0 \<le> delta"
  shows "\<exists>cells'. UPDATE_ION u cells cell delta = Inr cells' \<and>
     nfac_MC (cells' ! cell) + ifrac (cells' ! cell) = 1 \<and>
     0 \<le> nfac_MC (cells' ! cell) \<and> nfac_MC (cells' ! cell) \<le> 1 \<and>
     0 \<le> ifrac (cells' ! cell) \<and> ifrac (cells' ! cell) \<le> 1"
proof -
  let ?c = "cells ! cell"
  let ?d = "1 / ft0 ?c + ConB_of u ?c * delta"
  have q: "1 \<le> 1 / ft0 ?c" using assms(4,5) by simp
  have "0 \<le> ConB_of u ?c * delta" using assms(6,7) by simp
  then have d: "1 \<le> ?d" using q by linarith
  then have i: "0 \<le> 1 / ?d" "1 / ?d \<le> 1" by simp_all
  have "UPDATE_ION u cells cell delta =
    Inr (cells[cell := ?c\<lparr>ifrac := 1 / ?d, nfac_MC := 1 - 1 / ?d, ft0 := 1 / ?d\<rparr>])"
    using UPDATE_ION_recombination [of cell cells u delta] assms(1-4) d by simp
  then show ?thesis using assms(1) i by simp
qed

lemma UPDATE_ION_general_branch:
  assumes "cell < length cells" and "nfac_MC (cells ! cell) \<noteq> 1"
    and "jmean (cells ! cell) \<noteq> 0" and "nfac_MC (cells ! cell) \<noteq> 0"
    and "0 \<le> ft0 (cells ! cell)" and "ft0 (cells ! cell) \<le> 1"
    and "0 \<le> jmean (cells ! cell)"
    and "0 < ConB_of u (cells ! cell)" and "0 \<le> delta"
  shows "\<exists>cells'. UPDATE_ION u cells cell delta = Inr cells' \<and>
     nfac_MC (cells' ! cell) + ifrac (cells' ! cell) = 1 \<and>
     0 \<le> nfac_MC (cells' ! cell) \<and> nfac_MC (cells' ! cell) \<le> 1 \<and>
     0 \<le> ifrac (cells' ! cell) \<and> ifrac (cells' ! cell) \<le> 1"
proof -
  let ?c = "cells ! cell"
  define K where "K = ConB_of u ?c"
  define I where "I = jmean ?c / K"
  define r where "r = sqrt (I * (I + 4))"
  define a where "a = (2 * ft0 ?c + I) / r"
  define t where "t = tanh (0.5 * K * r * delta)"
  define i3 where "i3 = 0.5 * r * ((a + t) / (1 + a * t)) - 0.5 * I"
  have K: "0 < K" using assms(8) K_def by simp
  have I: "0 < I" using assms(3,7) K I_def by simp
  have II: "0 < I * (I + 4)" using I by simp
  have r: "0 < r" using II r_def by simp
  have rr: "r * r = I * (I + 4)" using II r_def by simp
  have t0: "0 \<le> t" using K r assms(9) t_def by simp
  have t1: "t \<le> 1" using tanh_real_lt_1 [of "0.5 * K * r * delta"] t_def by simp
  have I0: "0 \<le> I" using I by simp
  note b = riccati_bounds [OF I0 r rr assms(5) assms(6) t0 t1 a_def]
  have d: "1 + a * t \<noteq> 0" using b(1) by simp
  have K0: "K \<noteq> 0" and r0: "r \<noteq> 0" using K r by simp_all
  have KK: "alphaB ?c * (rho ?c * (UNIT_DENSITY_IN_SI u / HYDROGEN_MASS_IN_SI u)) = K"
    unfolding K_def ConB_of_def ..
  have e1: "fdiv (jmean ?c) K = Inr I"
    unfolding fdiv_def I_def using K0 by (simp only: if_False)
  have e2: "fdiv (2 * ft0 ?c + I) (sqrt (I * (I + 4))) = Inr a"
    unfolding fdiv_def a_def r_def [symmetric] using r0 by (simp only: if_False)
  have e3: "fdiv (a + tanh (0.5 * K * sqrt (I * (I + 4)) * delta))
               (1 + a * tanh (0.5 * K * sqrt (I * (I + 4)) * delta))
     = Inr ((a + tanh (0.5 * K * sqrt (I * (I + 4)) * delta))
            / (1 + a * tanh (0.5 * K * sqrt (I * (I + 4)) * delta)))"
    unfolding fdiv_def using d [unfolded t_def r_def] by (simp only: if_False)
  have nle: "\<not> length cells \<le> cell" using assms(1) by simp
  have nor: "\<not> (jmean ?c = 0 \<or> nfac_MC ?c = 0)" using assms(3,4) by simp
  have "UPDATE_ION u cells cell delta =
    Inr (cells[cell := ?c\<lparr>ifrac := i3, nfac_MC := 1 - i3, ft0 := i3\<rparr>])"
    unfolding UPDATE_ION_def Let_def KK i3_def r_def t_def
    using nle assms(2) nor e1 e2 e3
    by (simp only: if_False sum.case)
  then show ?thesis using assms(1) b(2,3) i3_def by simp
qed

lemma UPDATE_ION_bounds:
  assumes "cell < length cells"
    and "0 \<le> ft0 (cells ! cell)" and "ft0 (cells ! cell) \<le> 1"
    and "ft0 (cells ! cell) = 1 - nfac_MC (cells ! cell)"
    and "0 \<le> jmean (cells ! cell)" and "0 \<le> ConB_of u (cells ! cell)" and "0 \<le> delta"
    and "0 < ConB_of u (cells ! cell) \<or> jmean (cells ! cell) = 0
          \<or> nfac_MC (cells ! cell) = 0 \<or> nfac_MC (cells ! cell) = 1"
  shows "\<exists>cells'. UPDATE_ION u cells cell delta = Inr cells' \<and>
     nfac_MC (cells' ! cell) + ifrac (cells' ! cell) = 1 \<and>
     0 \<le> nfac_MC (cells' ! cell) \<and> nfac_MC (cells' ! cell) \<le> 1 \<and>
     0 \<le> ifrac (cells' ! cell) \<and> ifrac (cells' ! cell) \<le> 1"
proof (cases "nfac_MC (cells ! cell) = 1")
  case True
  then have "ft0 (cells ! cell) = 0" using assms(4) by simp
  then show ?thesis using UPDATE_ION_neutral_branch [OF assms(1) True _ assms(5) assms(7)] by blast
next
  case nf: False
  then have fpos: "0 < ft0 (cells ! cell)" using assms(2,4) by simp
  show ?thesis
  proof (cases "jmean (cells ! cell) = 0 \<or> nfac_MC (cells ! cell) = 0")
    case True
    show ?thesis
      by (rule UPDATE_ION_recombination_branch [OF assms(1) nf True fpos assms(3) assms(6) assms(7)])
  next
    case False
    then have j: "jmean (cells ! cell) \<noteq> 0" and n0: "nfac_MC (cells ! cell) \<noteq> 0" by simp_all
    have K: "0 < ConB_of u (cells ! cell)" using assms(8) nf j n0 by blast
    show ?thesis
      by (rule UPDATE_ION_general_branch [OF assms(1) nf j n0 assms(2) assms(3) assms(5) K assms(7)])
  qed
qed




section \<open>The branch of the Lambert W function\<close>

text \<open>
  Claim C2, as the code has it. The branch is chosen the other way round: the principal
  branch \<open>0\<close> for \<open>rinv < 1\<close>, that is for radii outside the Bondi radius (the subsonic
  part of the flow), and the branch \<open>-1\<close> for \<open>rinv \<ge> 1\<close>, at and inside the Bondi
  radius.
\<close>

theorem u2_over_cs2_branch:
  assumes "0 < rinv"
  shows "(rinv < 1 \<longrightarrow>
            u2_over_cs2 lambert_w rinv = - lambert_w (- exp (3 + 4 * (ln rinv - rinv))) 0)
       \<and> (1 \<le> rinv \<longrightarrow>
            u2_over_cs2 lambert_w rinv = - lambert_w (- exp (3 + 4 * (ln rinv - rinv))) (- 1))"
  by (simp add: u2_over_cs2_def Let_def)

theorem u2_over_cs2_branch_witness:
  "(0::real) < 1 / 2 \<and> (1::real) / 2 < 1 \<and> u2_over_cs2 branch_probe (1 / 2) = 0
   \<and> (0::real) < 2 \<and> (1::real) \<le> 2 \<and> u2_over_cs2 branch_probe 2 = 1"
proof -
  have a: "(0::real) < 1 / 2" and b: "(0::real) < 2" by simp_all
  show ?thesis
    using u2_over_cs2_branch [OF a, of branch_probe] u2_over_cs2_branch [OF b, of branch_probe]
    by (simp add: branch_probe_def)
qed

text \<open>
  Claim C2 as stated puts the principal branch inside the Bondi radius. At \<open>rinv = 2\<close>
  (inside) the call selects the branch \<open>-1\<close>, not the principal one, and at
  \<open>rinv = 1/2\<close> (outside) it selects the principal branch, not \<open>-1\<close>.
\<close>

theorem u2_over_cs2_branch_counterexample:
  "(1::real) < 2
   \<and> u2_over_cs2 branch_probe 2 \<noteq> - branch_probe (- exp (3 + 4 * (ln 2 - 2))) 0
   \<and> (1::real) / 2 < 1
   \<and> u2_over_cs2 branch_probe (1 / 2)
        \<noteq> - branch_probe (- exp (3 + 4 * (ln (1 / 2) - 1 / 2))) (- 1)"
  by (simp add: u2_over_cs2_def branch_probe_def Let_def)

section \<open>The optical depth of one call\<close>

lemma taulength_divisor:
  "rho c * (UNIT_DENSITY_IN_SI u / HYDROGEN_MASS_IN_SI u) * nfac_MC c * sigma c
     = depth_per_length u c"
  by (simp add: depth_per_length_def)

lemma taucell_PROPAGATE:
  "sigma c * V c * UNIT_LENGTH_IN_SI u * rho c
       * (UNIT_DENSITY_IN_SI u / HYDROGEN_MASS_IN_SI u) * nfac_MC c
     = depth_per_length u c * (V c * UNIT_LENGTH_IN_SI u)"
  by (simp add: depth_per_length_def)

lemma taucell_ICT:
  "sigma c * (V c * UNIT_LENGTH_IN_SI u - r) * rho c
       * (UNIT_DENSITY_IN_SI u / HYDROGEN_MASS_IN_SI u) * nfac_MC c
     = depth_per_length u c * (V c * UNIT_LENGTH_IN_SI u - r)"
  by (simp add: depth_per_length_def)

lemma PROPAGATE_depth:
  assumes "PROPAGATE u s = Inr s'"
  shows "t_taurem s - t_taurem s' = depth_per_length u (t_cells s ! t_cell s) * length_added s s'"
  using assms unfolding PROPAGATE_def Let_def taulength_divisor taucell_PROPAGATE
  by (auto simp: fdiv_def length_added_def add_length_def BANK_def algebra_simps
      split: if_splits)

lemma ICT_depth:
  assumes "ICT u s = Inr s'"
  shows "t_taurem s - t_taurem s' = depth_per_length u (t_cells s ! t_cell s) * length_added s s'"
  using assms unfolding ICT_def Let_def taulength_divisor taucell_ICT
  by (auto simp: fdiv_def length_added_def add_length_def BANK_def algebra_simps
      split: if_splits)

section \<open>Optical depth accounting\<close>

lemma packet_lifetime_depth:
  "packet_lifetime u cs s = Inr (d, s') \<Longrightarrow> d = t_taurem s - t_taurem s'"
proof (induction u cs s arbitrary: d s' rule: packet_lifetime.induct)
  case (1 u s)
  then show ?case by simp
next
  case (2 u cs s)
  from "2.prems" obtain s1 d1 where p: "PROPAGATE u s = Inr s1"
    and r: "packet_lifetime u cs s1 = Inr (d1, s')"
    and d: "d = depth_per_length u (t_cells s ! t_cell s) * length_added s s1 + d1"
    by (auto split: sum.splits)
  have "d1 = t_taurem s1 - t_taurem s'" using "2.IH" [OF p r] .
  then show ?case using d PROPAGATE_depth [OF p] by simp
next
  case (3 u cs s)
  from "3.prems" obtain s1 d1 where p: "ICT u s = Inr s1"
    and r: "packet_lifetime u cs s1 = Inr (d1, s')"
    and d: "d = depth_per_length u (t_cells s ! t_cell s) * length_added s s1 + d1"
    by (auto split: sum.splits)
  have "d1 = t_taurem s1 - t_taurem s'" using "3.IH" [OF p r] .
  then show ?case using d ICT_depth [OF p] by simp
next
  case (4 u cells' P_Store' rcurrent' lrem' stored' cs s)
  then show ?case by simp
qed

lemma depth_per_length_pos:
  assumes "0 < UNIT_DENSITY_IN_SI u" and "0 < HYDROGEN_MASS_IN_SI u"
    and "0 < sigma c * rho c * nfac_MC c"
  shows "0 < depth_per_length u c"
proof -
  have "depth_per_length u c = (sigma c * rho c * nfac_MC c) * (UNIT_DENSITY_IN_SI u / HYDROGEN_MASS_IN_SI u)"
    by (simp add: depth_per_length_def)
  then show ?thesis using assms by simp
qed

lemma PROPAGATE_total:
  assumes "t_cell s < length (t_cells s)" and "depth_per_length u (t_cells s ! t_cell s) \<noteq> 0"
  shows "\<exists>s'. PROPAGATE u s = Inr s'"
  using assms unfolding PROPAGATE_def Let_def taulength_divisor
  by (simp add: fdiv_def)

lemma ICT_total:
  assumes "t_cell s < length (t_cells s)" and "depth_per_length u (t_cells s ! t_cell s) \<noteq> 0"
  shows "\<exists>s'. ICT u s = Inr s'"
  using assms unfolding ICT_def Let_def taulength_divisor
  by (simp add: fdiv_def)

lemma PROPAGATE_division_by_zero:
  assumes "t_cell s < length (t_cells s)" and "nfac_MC (t_cells s ! t_cell s) = 0"
    and "t_lrem s \<le> V (t_cells s ! t_cell s) * UNIT_LENGTH_IN_SI u"
  shows "PROPAGATE u s = Inl DivisionByZero"
  using assms unfolding PROPAGATE_def Let_def
  by (simp add: fdiv_def)

lemma ICT_division_by_zero:
  assumes "t_cell s < length (t_cells s)" and "nfac_MC (t_cells s ! t_cell s) = 0"
    and "t_lrem s \<le> V (t_cells s ! t_cell s) * UNIT_LENGTH_IN_SI u - t_rcurrent s"
  shows "ICT u s = Inl DivisionByZero"
  using assms unfolding ICT_def Let_def
  by (simp add: fdiv_def)

lemma cell_partial_dpl: "depth_per_length units_ex cell_partial = 1 / 2"
  by (simp add: depth_per_length_def units_ex_def cell_partial_def cell_zero_def)

lemma PROPAGATE_packet_ex:
  "PROPAGATE units_ex packet_ex =
     Inr (packet_ex\<lparr>t_cells := add_length (t_cells packet_ex) 1 1, t_taurem := 9 / 2,
            t_lrem := 1 / 2, t_cell := 2\<rparr>)"
  unfolding PROPAGATE_def Let_def taulength_divisor taucell_PROPAGATE
  by (simp add: packet_ex_def cell_partial_dpl)
    (simp add: cell_partial_def cell_zero_def units_ex_def)

lemma packet_lifetime_ex:
  "\<exists>s'. packet_lifetime units_ex lifetime_ex packet_ex = Inr (5, s') \<and> t_taurem s' = 0"
  by (simp add: lifetime_ex_def packet_ex_def PROPAGATE_def ICT_def BANK_def add_length_def
      fdiv_def depth_per_length_def length_added_def Let_def
      cell_partial_def cell_zero_def units_ex_def)

lemma ICT_packet_ex:
  "\<exists>q'. ICT units_ex (packet_ex\<lparr>t_rcurrent := 1 / 4, t_lrem := 1 / 8\<rparr>) = Inr q'
      \<and> t_taurem q' = 79 / 16 \<and> t_stored q' = 1"
  by (simp add: packet_ex_def ICT_def BANK_def add_length_def
      fdiv_def Let_def cell_partial_def cell_zero_def units_ex_def)

text \<open>
  Claim C8. Every call of \<^verbatim>\<open>PROPAGATE\<close> or \<^verbatim>\<open>ICT\<close> that returns (in any of its three
  branches) decreases \<open>taurem\<close> by exactly \<open>sigma * n_H * nfac_MC\<close> times the path length it
  adds to the \<^verbatim>\<open>_length\<close> accumulator of the packet's cell; hence over any sequence of
  calls the optical depth consumed is the initial \<open>taurem\<close> minus the final one.
\<close>

theorem optical_depth_accounting:
  "(PROPAGATE u p = Inr p' \<longrightarrow>
      t_taurem p - t_taurem p' = depth_per_length u (t_cells p ! t_cell p) * length_added p p')
   \<and> (ICT u q = Inr q' \<longrightarrow>
      t_taurem q - t_taurem q' = depth_per_length u (t_cells q ! t_cell q) * length_added q q')
   \<and> (packet_lifetime u cs s = Inr (d, s') \<longrightarrow> d = t_taurem s - t_taurem s')"
  using PROPAGATE_depth ICT_depth packet_lifetime_depth by blast

text \<open>
  The theorem on a packet that crosses a cell, is banked in the next one, and is resumed
  and absorbed there in the following step: it consumes its whole \<open>taurem = 5\<close>.
\<close>

theorem optical_depth_accounting_witness:
  "(\<exists>p'. PROPAGATE units_ex packet_ex = Inr p' \<and>
       t_taurem packet_ex - t_taurem p'
         = depth_per_length units_ex (t_cells packet_ex ! t_cell packet_ex)
             * length_added packet_ex p')
   \<and> (\<exists>q'. ICT units_ex (packet_ex\<lparr>t_rcurrent := 1 / 4, t_lrem := 1 / 8\<rparr>) = Inr q' \<and>
       t_taurem (packet_ex\<lparr>t_rcurrent := 1 / 4, t_lrem := 1 / 8\<rparr>) - t_taurem q'
         = depth_per_length units_ex (t_cells packet_ex ! t_cell packet_ex)
             * length_added (packet_ex\<lparr>t_rcurrent := 1 / 4, t_lrem := 1 / 8\<rparr>) q')
   \<and> (\<exists>s'. packet_lifetime units_ex lifetime_ex packet_ex = Inr (5, s') \<and>
       5 = t_taurem packet_ex - t_taurem s')"
proof -
  obtain p' where p: "PROPAGATE units_ex packet_ex = Inr p'"
    using PROPAGATE_packet_ex by blast
  obtain q' where q: "ICT units_ex (packet_ex\<lparr>t_rcurrent := 1 / 4, t_lrem := 1 / 8\<rparr>) = Inr q'"
    using ICT_packet_ex by blast
  obtain s' where s: "packet_lifetime units_ex lifetime_ex packet_ex = Inr (5, s')"
    using packet_lifetime_ex by blast
  note inst = optical_depth_accounting [of units_ex packet_ex p'
      "packet_ex\<lparr>t_rcurrent := 1 / 4, t_lrem := 1 / 8\<rparr>" q' lifetime_ex packet_ex 5 s']
  show ?thesis using inst p q s by simp
qed

section \<open>The divisions of the packet propagation\<close>

text \<open>
  Claim C10. With positive unit constants and \<open>sigma * rho * nfac_MC > 0\<close> in the packet's
  cell, the divisors of \<^verbatim>\<open>PROPAGATE\<close> and \<^verbatim>\<open>ICT\<close> (\<^verbatim>\<open>HYDROGEN_MASS_IN_SI\<close> and the divisor
  of \<^verbatim>\<open>taulength\<close>) are not zero and both calls return. In a fully ionised cell
  (\<open>nfac_MC = 0\<close>) with \<open>taurem > 0\<close> and \<open>lrem\<close> not beyond the remaining path in the
  cell, the divisor of \<^verbatim>\<open>taulength\<close> is zero and the call divides by it.
\<close>

theorem propagation_divisors:
  assumes "0 < UNIT_DENSITY_IN_SI u" and "0 < HYDROGEN_MASS_IN_SI u"
    and "t_cell s < length (t_cells s)"
  shows "(0 < sigma (t_cells s ! t_cell s) * rho (t_cells s ! t_cell s)
               * nfac_MC (t_cells s ! t_cell s) \<longrightarrow>
           HYDROGEN_MASS_IN_SI u \<noteq> 0
           \<and> rho (t_cells s ! t_cell s) * (UNIT_DENSITY_IN_SI u / HYDROGEN_MASS_IN_SI u)
               * nfac_MC (t_cells s ! t_cell s) * sigma (t_cells s ! t_cell s) \<noteq> 0
           \<and> (\<exists>s'. PROPAGATE u s = Inr s') \<and> (\<exists>s'. ICT u s = Inr s'))
       \<and> (nfac_MC (t_cells s ! t_cell s) = 0 \<and> 0 < t_taurem s
            \<and> t_lrem s \<le> V (t_cells s ! t_cell s) * UNIT_LENGTH_IN_SI u \<longrightarrow>
           rho (t_cells s ! t_cell s) * (UNIT_DENSITY_IN_SI u / HYDROGEN_MASS_IN_SI u)
               * nfac_MC (t_cells s ! t_cell s) * sigma (t_cells s ! t_cell s) = 0
           \<and> PROPAGATE u s = Inl DivisionByZero)
       \<and> (nfac_MC (t_cells s ! t_cell s) = 0 \<and> 0 < t_taurem s
            \<and> t_lrem s \<le> V (t_cells s ! t_cell s) * UNIT_LENGTH_IN_SI u - t_rcurrent s \<longrightarrow>
           rho (t_cells s ! t_cell s) * (UNIT_DENSITY_IN_SI u / HYDROGEN_MASS_IN_SI u)
               * nfac_MC (t_cells s ! t_cell s) * sigma (t_cells s ! t_cell s) = 0
           \<and> ICT u s = Inl DivisionByZero)"
proof (intro conjI impI)
  assume pos: "0 < sigma (t_cells s ! t_cell s) * rho (t_cells s ! t_cell s)
               * nfac_MC (t_cells s ! t_cell s)"
  have k: "0 < depth_per_length u (t_cells s ! t_cell s)"
    by (rule depth_per_length_pos [OF assms(1) assms(2) pos])
  show "HYDROGEN_MASS_IN_SI u \<noteq> 0" using assms(2) by simp
  show "rho (t_cells s ! t_cell s) * (UNIT_DENSITY_IN_SI u / HYDROGEN_MASS_IN_SI u)
               * nfac_MC (t_cells s ! t_cell s) * sigma (t_cells s ! t_cell s) \<noteq> 0"
    using k unfolding taulength_divisor by simp
  show "\<exists>s'. PROPAGATE u s = Inr s'" using PROPAGATE_total [OF assms(3)] k by simp
  show "\<exists>s'. ICT u s = Inr s'" using ICT_total [OF assms(3)] k by simp
next
  assume "nfac_MC (t_cells s ! t_cell s) = 0 \<and> 0 < t_taurem s
            \<and> t_lrem s \<le> V (t_cells s ! t_cell s) * UNIT_LENGTH_IN_SI u"
  then show "PROPAGATE u s = Inl DivisionByZero"
    using PROPAGATE_division_by_zero [OF assms(3)] by simp
next
  assume "nfac_MC (t_cells s ! t_cell s) = 0 \<and> 0 < t_taurem s
            \<and> t_lrem s \<le> V (t_cells s ! t_cell s) * UNIT_LENGTH_IN_SI u - t_rcurrent s"
  then show "ICT u s = Inl DivisionByZero"
    using ICT_division_by_zero [OF assms(3)] by simp
qed simp_all

text \<open>
  The theorem at a packet in a half-neutral cell, where both calls return, and at a
  packet with \<open>taurem = 5\<close> and \<open>lrem = 1/2\<close> in a fully ionised cell of width \<open>1\<close>, where
  both calls divide by zero.
\<close>

theorem propagation_divisors_witness:
  "0 < UNIT_DENSITY_IN_SI units_ex \<and> 0 < HYDROGEN_MASS_IN_SI units_ex
   \<and> t_cell packet_ex < length (t_cells packet_ex)
   \<and> 0 < sigma (t_cells packet_ex ! t_cell packet_ex) * rho (t_cells packet_ex ! t_cell packet_ex)
           * nfac_MC (t_cells packet_ex ! t_cell packet_ex)
   \<and> (\<exists>s'. PROPAGATE units_ex packet_ex = Inr s') \<and> (\<exists>s'. ICT units_ex packet_ex = Inr s')
   \<and> t_cell packet_ionised < length (t_cells packet_ionised)
   \<and> nfac_MC (t_cells packet_ionised ! t_cell packet_ionised) = 0
   \<and> 0 < t_taurem packet_ionised
   \<and> t_lrem packet_ionised
       \<le> V (t_cells packet_ionised ! t_cell packet_ionised) * UNIT_LENGTH_IN_SI units_ex
           - t_rcurrent packet_ionised
   \<and> PROPAGATE units_ex packet_ionised = Inl DivisionByZero
   \<and> ICT units_ex packet_ionised = Inl DivisionByZero"
proof -
  have ud: "0 < UNIT_DENSITY_IN_SI units_ex" and mh: "0 < HYDROGEN_MASS_IN_SI units_ex"
    by (simp_all add: units_ex_def)
  have r1: "t_cell packet_ex < length (t_cells packet_ex)"
    and r2: "t_cell packet_ionised < length (t_cells packet_ionised)"
    by (simp_all add: packet_ex_def packet_ionised_def)
  have pos: "0 < sigma (t_cells packet_ex ! t_cell packet_ex)
           * rho (t_cells packet_ex ! t_cell packet_ex)
           * nfac_MC (t_cells packet_ex ! t_cell packet_ex)"
    by (simp add: packet_ex_def cell_partial_def cell_zero_def)
  have ion: "nfac_MC (t_cells packet_ionised ! t_cell packet_ionised) = 0"
    "0 < t_taurem packet_ionised"
    "t_lrem packet_ionised
       \<le> V (t_cells packet_ionised ! t_cell packet_ionised) * UNIT_LENGTH_IN_SI units_ex
           - t_rcurrent packet_ionised"
    "t_rcurrent packet_ionised = 0"
    by (simp_all add: packet_ionised_def cell_ionised_def cell_zero_def units_ex_def)
  show ?thesis
    using propagation_divisors [OF ud mh r1] propagation_divisors [OF ud mh r2]
      ud mh r1 r2 pos ion
    by simp
qed

section \<open>Bank overflow\<close>

lemma PROPAGATE_banked_stored:
  assumes "PROPAGATE_banks u s" and "t_stored s \<le> 10000000"
  shows "\<exists>s'. PROPAGATE u s = Inr s' \<and> t_stored s' = t_stored s + 1 \<and> t_lrem s' = 0
     \<and> t_cell s' = t_cell s
     \<and> futureCell (t_P_Store s' (t_stored s)) = t_cell s
     \<and> futureTaurem (t_P_Store s' (t_stored s)) = t_taurem s'
     \<and> futureDistance (t_P_Store s' (t_stored s)) = t_lrem s"
  using assms unfolding PROPAGATE_banks_def PROPAGATE_def Let_def taulength_divisor taucell_PROPAGATE
  by (simp add: fdiv_def BANK_def)

lemma PROPAGATE_banked_dropped:
  assumes "PROPAGATE_banks u s" and "10000000 < t_stored s"
  shows "\<exists>s'. PROPAGATE u s = Inr s' \<and> t_stored s' = t_stored s + 1 \<and> t_lrem s' = 0
     \<and> t_cell s' = t_cell s \<and> t_P_Store s' = t_P_Store s"
  using assms unfolding PROPAGATE_banks_def PROPAGATE_def Let_def taulength_divisor taucell_PROPAGATE
  by (simp add: fdiv_def BANK_def)

lemma ICT_banked_stored:
  assumes "ICT_banks u s" and "t_stored s \<le> 10000000"
  shows "\<exists>s'. ICT u s = Inr s' \<and> t_stored s' = t_stored s + 1 \<and> t_lrem s' = 0
     \<and> t_cell s' = t_cell s
     \<and> futureCell (t_P_Store s' (t_stored s)) = t_cell s
     \<and> futureTaurem (t_P_Store s' (t_stored s)) = t_taurem s'
     \<and> futureDistance (t_P_Store s' (t_stored s)) = t_rcurrent s + t_lrem s"
  using assms unfolding ICT_banks_def ICT_def Let_def taulength_divisor taucell_ICT
  by (simp add: fdiv_def BANK_def)

lemma ICT_banked_dropped:
  assumes "ICT_banks u s" and "10000000 < t_stored s"
  shows "\<exists>s'. ICT u s = Inr s' \<and> t_stored s' = t_stored s + 1 \<and> t_lrem s' = 0
     \<and> t_cell s' = t_cell s \<and> t_P_Store s' = t_P_Store s"
  using assms unfolding ICT_banks_def ICT_def Let_def taulength_divisor taucell_ICT
  by (simp add: fdiv_def BANK_def)

lemma PROPAGATE_stored:
  assumes "PROPAGATE u s = Inr s'"
  shows "t_stored s' = (if PROPAGATE_banks u s then t_stored s + 1 else t_stored s)"
  using assms unfolding PROPAGATE_banks_def PROPAGATE_def Let_def taulength_divisor taucell_PROPAGATE
  by (auto simp: fdiv_def BANK_def split: if_splits)

lemma ICT_stored:
  assumes "ICT u s = Inr s'"
  shows "t_stored s' = (if ICT_banks u s then t_stored s + 1 else t_stored s)"
  using assms unfolding ICT_banks_def ICT_def Let_def taulength_divisor taucell_ICT
  by (auto simp: fdiv_def BANK_def split: if_splits)

lemma step_halts:
  assumes "get_ionisation_radius_MC u ncell time tcf tau sim = Inr r"
  shows "\<exists>s cells'. transport_phase u ncell tau (sim_cells sim) (sim_P_Store sim) = Inr s
     \<and> intensity_phase u ncell (t_cells s) = Inr cells'
     \<and> (sizebank < t_stored s \<longrightarrow>
           r = Break (sim\<lparr>sim_cells := cells', sim_P_Store := t_P_Store s\<rparr>))
     \<and> (t_stored s \<le> sizebank \<longrightarrow> (\<exists>sim' rion. r = Done sim' rion))"
  using assms unfolding get_ionisation_radius_MC_def Let_def
  by (auto split: sum.splits if_splits)

lemma for_loop_counts:
  assumes "I s"
    and "\<And>j s. I s \<Longrightarrow> \<exists>s'. body j s = Inr s' \<and> I s' \<and> t_stored s' = t_stored s + 1"
  shows "\<exists>s'. for_loop body js s = Inr s' \<and> I s' \<and> t_stored s' = t_stored s + length js"
  using assms(1)
proof (induction js arbitrary: s)
  case Nil
  then show ?case by simp
next
  case (Cons j js)
  from assms(2) [OF Cons.prems, of j] obtain s1 where
    b: "body j s = Inr s1" and i: "I s1" and n: "t_stored s1 = t_stored s + 1" by blast
  from Cons.IH [OF i] obtain s2 where
    "for_loop body js s1 = Inr s2" "I s2" "t_stored s2 = t_stored s1 + length js" by blast
  then show ?case using b n by simp
qed

lemma resume_packet_inv:
  assumes "transport_inv s"
  shows "\<exists>s'. resume_packet units_ex 1 j s = Inr s' \<and> transport_inv s' \<and> t_stored s' = t_stored s + 1"
proof -
  from assms obtain L where L: "0 \<le> L"
    and cs: "t_cells s = [cell_ghost, cell_partial\<lparr>jmean := 0, length_acc := L\<rparr>, cell_zero]"
    and P: "\<And>j. currentCell (t_P_Store s j) = 1 \<and> currentTaurem (t_P_Store s j) = 5
             \<and> currentDistance (t_P_Store s j) = 0"
    unfolding transport_inv_def by blast
  show ?thesis
    unfolding resume_packet_def Let_def transport_inv_def
    by (simp add: cs P L PROPAGATE_def BANK_def add_length_def fdiv_def Let_def
        cell_partial_def cell_zero_def cell_ghost_def units_ex_def)
qed

lemma emit_packet_inv:
  assumes "transport_inv s"
  shows "\<exists>s'. emit_packet units_ex 1 tau_ex j s = Inr s' \<and> transport_inv s' \<and> t_stored s' = t_stored s + 1"
proof -
  from assms obtain L where L: "0 \<le> L"
    and cs: "t_cells s = [cell_ghost, cell_partial\<lparr>jmean := 0, length_acc := L\<rparr>, cell_zero]"
    and P: "\<And>j. currentCell (t_P_Store s j) = 1 \<and> currentTaurem (t_P_Store s j) = 5
             \<and> currentDistance (t_P_Store s j) = 0"
    unfolding transport_inv_def by blast
  show ?thesis
    unfolding emit_packet_def Let_def transport_inv_def tau_ex_def
    by (simp add: cs P L PROPAGATE_def BANK_def add_length_def fdiv_def Let_def
        cell_partial_def cell_zero_def cell_ghost_def units_ex_def)
qed

lemma transport_phase_full:
  "\<exists>s. transport_phase units_ex 1 tau_ex [cell_ghost, cell_partial, cell_zero] (\<lambda>j. bank_full) = Inr s
      \<and> transport_inv s \<and> t_stored s = 10001000"
proof -
  let ?s0 = "\<lparr>t_cells = fold reset_cell [1..<1 + 1] [cell_ghost, cell_partial, cell_zero],
       t_P_Store = (\<lambda>j. bank_full), t_cell = 0, t_taurem = 0, t_rcurrent = 0,
       t_lrem = SPEED_OF_LIGHT_IN_SI units_ex * dt ([cell_ghost, cell_partial, cell_zero] ! 1)
                  * UNIT_TIME_IN_SI units_ex,
       t_stored = 0\<rparr>"
  have i0: "transport_inv ?s0"
    by (auto simp: transport_inv_def reset_cell_def bank_full_def bank_zero_def intro!: exI [of _ 0])
  obtain s1 where r1: "for_loop (resume_packet units_ex 1) [0..<10000000] ?s0 = Inr s1"
    and i1: "transport_inv s1" and n1: "t_stored s1 = 10000000"
    using for_loop_counts [of transport_inv ?s0 "resume_packet units_ex 1" "[0..<10000000]",
        OF i0 resume_packet_inv]
    by auto
  obtain s2 where r2: "for_loop (emit_packet units_ex 1 tau_ex) [0..<nphoton] s1 = Inr s2"
    and i2: "transport_inv s2" and n2: "t_stored s2 = 10001000"
    using for_loop_counts [of transport_inv s1 "emit_packet units_ex 1 tau_ex" "[0..<nphoton]",
        OF i1 emit_packet_inv] n1
    by (auto simp: nphoton_def)
  have nb: "currentnbank (bank_full) = 10000000" by (simp add: bank_full_def bank_zero_def)
  have "transport_phase units_ex 1 tau_ex [cell_ghost, cell_partial, cell_zero] (\<lambda>j. bank_full) = Inr s2"
    unfolding transport_phase_def Let_def nb using r1 r2 by simp
  then show ?thesis using i2 n2 by blast
qed

lemma intensity_phase_inv:
  assumes "transport_inv s"
  shows "\<exists>cells'. intensity_phase units_ex 1 (t_cells s) = Inr cells'"
proof -
  from assms obtain L where L: "0 \<le> L"
    and cs: "t_cells s = [cell_ghost, cell_partial\<lparr>jmean := 0, length_acc := L\<rparr>, cell_zero]"
    unfolding transport_inv_def by blast
  define J where "J = Qion * L / (real nphoton * (4 / 3 * pi * 7))"
  have J: "0 \<le> J" using L by (simp add: J_def Qion_def nphoton_def)
  let ?cs1 = "[cell_ghost, cell_partial\<lparr>jmean := J, length_acc := L\<rparr>, cell_zero]"
  have sj: "set_jmean units_ex 1 (t_cells s) = Inr ?cs1"
    unfolding set_jmean_def Let_def cs J_def
    by (simp add: fdiv_def cell_partial_def cell_zero_def units_ex_def nphoton_def)
  have "\<exists>cells'. UPDATE_ION units_ex ?cs1 1 (dt (?cs1 ! 1) * UNIT_TIME_IN_SI units_ex) = Inr cells'"
    using UPDATE_ION_bounds [of 1 ?cs1 units_ex "dt (?cs1 ! 1) * UNIT_TIME_IN_SI units_ex"] J
    by (auto simp: ConB_of_def cell_partial_def cell_zero_def units_ex_def)
  then obtain cs2 where "update_cell units_ex 1 ?cs1 = Inr cs2"
    unfolding update_cell_def by auto
  then show ?thesis unfolding intensity_phase_def using sj by simp
qed

text \<open>
  Claim C4, as the code has it. A step that returns ends in \<^verbatim>\<open>break\<close>, before the bank
  is rotated, exactly when the counter \<^verbatim>\<open>nbank\<close> of packets banked in the step exceeds
  \<^verbatim>\<open>sizebank\<close>; every call that banks a packet adds one to the counter, and no other call
  changes it. A packet banked while the counter is at most \<open>10000000\<close> (the guard
  \<^verbatim>\<open>stored<=10000000\<close>) gets the bank entry at the index of the counter, with its cell,
  its remaining optical depth and its in-cell distance. A packet banked after that is
  only counted: the bank is left as it was. (Whether the index \<open>10000000\<close> lies inside
  the allocated bank is decided where the bank is allocated, not in \<^verbatim>\<open>Bondi.hpp\<close>.)
\<close>

theorem bank_overflow:
  "(get_ionisation_radius_MC u ncell time tcf tau sim = Inr r \<longrightarrow>
      (\<exists>s cells'. transport_phase u ncell tau (sim_cells sim) (sim_P_Store sim) = Inr s
         \<and> intensity_phase u ncell (t_cells s) = Inr cells'
         \<and> (sizebank < t_stored s \<longrightarrow>
               r = Break (sim\<lparr>sim_cells := cells', sim_P_Store := t_P_Store s\<rparr>))
         \<and> (t_stored s \<le> sizebank \<longrightarrow> (\<exists>sim' rion. r = Done sim' rion))))
   \<and> (PROPAGATE u p = Inr p' \<longrightarrow>
        t_stored p' = (if PROPAGATE_banks u p then t_stored p + 1 else t_stored p))
   \<and> (ICT u p = Inr p' \<longrightarrow>
        t_stored p' = (if ICT_banks u p then t_stored p + 1 else t_stored p))
   \<and> (PROPAGATE_banks u q \<and> t_stored q \<le> 10000000 \<longrightarrow>
        (\<exists>q'. PROPAGATE u q = Inr q' \<and> t_stored q' = t_stored q + 1 \<and> t_lrem q' = 0
           \<and> t_cell q' = t_cell q
           \<and> futureCell (t_P_Store q' (t_stored q)) = t_cell q
           \<and> futureTaurem (t_P_Store q' (t_stored q)) = t_taurem q'
           \<and> futureDistance (t_P_Store q' (t_stored q)) = t_lrem q))
   \<and> (ICT_banks u q \<and> t_stored q \<le> 10000000 \<longrightarrow>
        (\<exists>q'. ICT u q = Inr q' \<and> t_stored q' = t_stored q + 1 \<and> t_lrem q' = 0
           \<and> t_cell q' = t_cell q
           \<and> futureCell (t_P_Store q' (t_stored q)) = t_cell q
           \<and> futureTaurem (t_P_Store q' (t_stored q)) = t_taurem q'
           \<and> futureDistance (t_P_Store q' (t_stored q)) = t_rcurrent q + t_lrem q))
   \<and> (PROPAGATE_banks u q \<and> 10000000 < t_stored q \<longrightarrow>
        (\<exists>q'. PROPAGATE u q = Inr q' \<and> t_stored q' = t_stored q + 1 \<and> t_lrem q' = 0
           \<and> t_cell q' = t_cell q \<and> t_P_Store q' = t_P_Store q))
   \<and> (ICT_banks u q \<and> 10000000 < t_stored q \<longrightarrow>
        (\<exists>q'. ICT u q = Inr q' \<and> t_stored q' = t_stored q + 1 \<and> t_lrem q' = 0
           \<and> t_cell q' = t_cell q \<and> t_P_Store q' = t_P_Store q))"
  using step_halts [of u ncell time tcf tau sim r] PROPAGATE_stored [of u p p'] ICT_stored [of u p p']
    PROPAGATE_banked_stored [of u q] ICT_banked_stored [of u q]
    PROPAGATE_banked_dropped [of u q] ICT_banked_dropped [of u q]
  by (intro conjI impI) (erule conjE | assumption | simp)+

text \<open>
  The theorem on the overflowing step, which ends in \<^verbatim>\<open>break\<close> with \<open>10001000\<close> packets
  counted, on packets banked by \<^verbatim>\<open>PROPAGATE\<close> and \<^verbatim>\<open>ICT\<close> with room in the bank, and on
  a packet banked when the counter is \<open>10000001\<close>.
\<close>

theorem bank_overflow_witness:
  "(\<exists>r sim'. get_ionisation_radius_MC units_ex 1 0 1 tau_ex sim_full = Inr r \<and> r = Break sim')
   \<and> (\<exists>s. transport_phase units_ex 1 tau_ex (sim_cells sim_full) (sim_P_Store sim_full) = Inr s
          \<and> sizebank < t_stored s)
   \<and> PROPAGATE_banks units_ex (packet_ex\<lparr>t_lrem := 1 / 2\<rparr>)
   \<and> t_stored (packet_ex\<lparr>t_lrem := 1 / 2\<rparr>) \<le> 10000000
   \<and> (\<exists>q'. PROPAGATE units_ex (packet_ex\<lparr>t_lrem := 1 / 2\<rparr>) = Inr q'
         \<and> futureCell (t_P_Store q' 0) = 1 \<and> futureTaurem (t_P_Store q' 0) = t_taurem q'
         \<and> futureDistance (t_P_Store q' 0) = 1 / 2 \<and> t_stored q' = 1)
   \<and> ICT_banks units_ex (packet_ex\<lparr>t_rcurrent := 1 / 4, t_lrem := 1 / 8\<rparr>)
   \<and> (\<exists>q'. ICT units_ex (packet_ex\<lparr>t_rcurrent := 1 / 4, t_lrem := 1 / 8\<rparr>) = Inr q'
         \<and> futureCell (t_P_Store q' 0) = 1 \<and> futureTaurem (t_P_Store q' 0) = t_taurem q'
         \<and> futureDistance (t_P_Store q' 0) = 3 / 8 \<and> t_stored q' = 1)
   \<and> PROPAGATE_banks units_ex packet_overflow \<and> 10000000 < t_stored packet_overflow
   \<and> (\<exists>q'. PROPAGATE units_ex packet_overflow = Inr q' \<and> t_stored q' = 10000002
         \<and> t_P_Store q' = t_P_Store packet_overflow)"
proof -
  obtain s where tp: "transport_phase units_ex 1 tau_ex (sim_cells sim_full) (sim_P_Store sim_full) = Inr s"
    and inv: "transport_inv s" and n: "t_stored s = 10001000"
    using transport_phase_full by (auto simp: sim_full_def)
  obtain cells' where ip: "intensity_phase units_ex 1 (t_cells s) = Inr cells'"
    using intensity_phase_inv [OF inv] by blast
  have big: "sizebank < t_stored s" using n by (simp add: sizebank_def)
  obtain r where run: "get_ionisation_radius_MC units_ex 1 0 1 tau_ex sim_full = Inr r"
    unfolding get_ionisation_radius_MC_def Let_def using tp ip big by simp
  let ?q1 = "packet_ex\<lparr>t_lrem := 1 / 2\<rparr>"
  let ?q2 = "packet_ex\<lparr>t_rcurrent := 1 / 4, t_lrem := 1 / 8\<rparr>"
  have k: "depth_per_length units_ex (t_cells packet_ex ! t_cell packet_ex) = 1 / 2"
    by (simp add: packet_ex_def cell_partial_dpl)
  have b1: "PROPAGATE_banks units_ex ?q1" and l1: "t_stored ?q1 \<le> 10000000"
    and b2: "ICT_banks units_ex ?q2" and l2: "t_stored ?q2 \<le> 10000000"
    and b3: "PROPAGATE_banks units_ex packet_overflow" and l3: "10000000 < t_stored packet_overflow"
    using k
    by (simp_all add: PROPAGATE_banks_def ICT_banks_def packet_overflow_def)
      (simp_all add: packet_ex_def cell_partial_def cell_zero_def units_ex_def)
  note i1 = bank_overflow [of units_ex 1 0 1 tau_ex sim_full r packet_ex packet_ex ?q1]
  note i2 = bank_overflow [of units_ex 1 0 1 tau_ex sim_full r packet_ex packet_ex ?q2]
  note i3 = bank_overflow [of units_ex 1 0 1 tau_ex sim_full r packet_ex packet_ex packet_overflow]
  have halt: "\<exists>sim'. r = Break sim'" using i1 run tp big by auto
  have w1: "\<exists>q'. PROPAGATE units_ex ?q1 = Inr q'
         \<and> futureCell (t_P_Store q' 0) = 1 \<and> futureTaurem (t_P_Store q' 0) = t_taurem q'
         \<and> futureDistance (t_P_Store q' 0) = 1 / 2 \<and> t_stored q' = 1"
    using i1 b1 l1 by (auto simp: packet_ex_def)
  have w2: "\<exists>q'. ICT units_ex ?q2 = Inr q'
         \<and> futureCell (t_P_Store q' 0) = 1 \<and> futureTaurem (t_P_Store q' 0) = t_taurem q'
         \<and> futureDistance (t_P_Store q' 0) = 3 / 8 \<and> t_stored q' = 1"
    using i2 b2 l2 by (auto simp: packet_ex_def)
  have w3: "\<exists>q'. PROPAGATE units_ex packet_overflow = Inr q' \<and> t_stored q' = 10000002
         \<and> t_P_Store q' = t_P_Store packet_overflow"
    using i3 b3 l3 by (auto simp: packet_overflow_def)
  show ?thesis using run halt tp big b1 l1 w1 b2 w2 b3 l3 w3 by blast
qed

text \<open>
  Claim C4 as stated promises a bank entry for every banked packet. A packet that
  \<^verbatim>\<open>PROPAGATE\<close> banks when \<open>10000001\<close> packets have been banked in the step (its budget
  \<open>lrem = 1/2\<close> ends inside the cell, with \<open>taurem = 19/4\<close> left) is counted, and no
  entry is written: the bank after the call is the bank before it.
\<close>

theorem bank_overflow_counterexample:
  "PROPAGATE_banks units_ex packet_overflow
   \<and> PROPAGATE units_ex packet_overflow =
       Inr (packet_overflow\<lparr>t_cells := add_length (t_cells packet_overflow) 1 (1 / 2),
              t_taurem := 19 / 4, t_stored := 10000002, t_lrem := 0\<rparr>)
   \<and> t_P_Store (packet_overflow\<lparr>t_cells := add_length (t_cells packet_overflow) 1 (1 / 2),
              t_taurem := 19 / 4, t_stored := 10000002, t_lrem := 0\<rparr>)
       = t_P_Store packet_overflow"
  by (simp add: PROPAGATE_banks_def PROPAGATE_def Let_def fdiv_def depth_per_length_def
      packet_overflow_def packet_ex_def add_length_def
      cell_partial_def cell_zero_def units_ex_def)

section \<open>The smooth transition\<close>










lemma cube_strict_mono:
  fixes x y :: real
  assumes "x < y"
  shows "x * x * x < y * y * y"
proof -
  have le: "x ^ 3 \<le> y ^ 3" using assms by (intro power_mono_odd) simp_all
  have "x ^ 3 \<noteq> y ^ 3"
  proof
    assume "x ^ 3 = y ^ 3"
    then have "root 3 (x ^ 3) = root 3 (y ^ 3)" by simp
    then have "x = y" by (simp add: odd_real_root_power_cancel)
    then show False using assms by simp
  qed
  then show ?thesis using le by (simp add: power3_eq_cube)
qed

lemma cube_mono:
  fixes x y :: real
  assumes "x \<le> y"
  shows "x * x * x \<le> y * y * y"
  using power_mono_odd [of 3 x y] assms by (simp add: power3_eq_cube)






section \<open>The loops over the cells\<close>

lemma for_loop_append:
  "for_loop body (xs @ ys) s =
     (case for_loop body xs s of Inl e \<Rightarrow> Inl e | Inr s' \<Rightarrow> for_loop body ys s')"
  by (induction xs arbitrary: s) (auto split: sum.splits)

lemma set_weight_length [simp]: "length (set_weight j cells) = length cells"
  by (simp add: set_weight_def)

lemma set_weight_nth:
  "i < length cells \<Longrightarrow>
     set_weight j cells ! i =
       (if i = j then (cells ! i)\<lparr>nfac := Cshell (cells ! i)\<rparr> else cells ! i)"
  by (simp add: set_weight_def nth_list_update)

lemma fold_set_weight_length [simp]: "length (fold set_weight js cells) = length cells"
  by (induction js arbitrary: cells) simp_all


lemma fold_set_weight_nth:
  assumes "i < length cells" and "distinct js"
  shows "fold set_weight js cells ! i =
     (if i \<in> set js then (cells ! i)\<lparr>nfac := Cshell (cells ! i)\<rparr> else cells ! i)"
  using assms
proof (induction js arbitrary: cells)
  case Nil
  then show ?case by simp
next
  case (Cons j js)
  have len: "i < length (set_weight j cells)" using Cons.prems(1) by simp
  have d: "distinct js" and nj: "j \<notin> set js" using Cons.prems(2) by simp_all
  show ?case
    using Cons.IH [OF len d] Cons.prems(1) nj
    by (auto simp: set_weight_nth)
qed





lemma weights_nth:
  assumes "ncell < length cells" and "1 \<le> i" and "i \<le> ncell"
  shows "fold set_weight [1..<ncell + 1] cells ! i = (cells ! i)\<lparr>nfac := Cshell (cells ! i)\<rparr>"
  using fold_set_weight_nth [of i cells "[1..<ncell + 1]"] assms by simp








section \<open>The range of the neutral fraction\<close>






section \<open>The scan of the self-consistent radius solver\<close>

lemma grid_ok_iff:
  "grid_ok ncell cells =
     (ncell < length cells
      \<and> (\<forall>i. 1 \<le> i \<and> i \<le> ncell \<longrightarrow> lowlim (cells ! i) < uplim (cells ! i))
      \<and> (\<forall>i. 1 \<le> i \<and> i < ncell \<longrightarrow> uplim (cells ! i) = lowlim (cells ! Suc i)))"
  by (auto simp: grid_ok_def)

lemma same_field_iff:
  "same_field ncell cells cells' =
     (length cells' = length cells
      \<and> (\<forall>i. 1 \<le> i \<and> i \<le> ncell \<longrightarrow>
            lowlim (cells' ! i) = lowlim (cells ! i) \<and> uplim (cells' ! i) = uplim (cells ! i)
            \<and> rho (cells' ! i) = rho (cells ! i)))"
  by (auto simp: same_field_def)

lemma scan_shell_full:
  assumes "0 < nfac (cs ! i)" and "nfac (cs ! i) \<le> Cion"
  shows "scan_shell cs i (Cion, r) = Inr (Cion - nfac (cs ! i), uplim (cs ! i))"
proof -
  have "0 < Cion" using assms by linarith
  moreover have "1 \<le> Cion / nfac (cs ! i)" using assms by simp
  ultimately show ?thesis using assms(1)
    by (simp add: scan_shell_def fdiv_def Let_def min_def)
qed

lemma scan_shell_exhausted:
  assumes "Cion \<le> 0"
  shows "scan_shell cs i (Cion, r) = Inr (Cion, r)"
  using assms by (simp add: scan_shell_def Let_def)

lemma scan_loop_exhausted:
  assumes "Cion \<le> 0"
  shows "for_loop (scan_shell cs) js (Cion, r) = Inr (Cion, r)"
  by (induction js) (simp_all add: scan_shell_exhausted [OF assms])

lemma scan_loop_full:
  assumes "js \<noteq> []" and "\<forall>i\<in>set js. 0 < nfac (cs ! i)" and "0 \<le> rest"
  shows "for_loop (scan_shell cs) js ((\<Sum>i\<leftarrow>js. nfac (cs ! i)) + rest, r)
           = Inr (rest, uplim (cs ! last js))"
  using assms
proof (induction js arbitrary: r)
  case Nil
  then show ?case by simp
next
  case (Cons j js)
  have pos: "0 < nfac (cs ! j)" and posr: "\<forall>i\<in>set js. 0 < nfac (cs ! i)"
    using Cons.prems(2) by simp_all
  have s0: "0 \<le> (\<Sum>i\<leftarrow>js. nfac (cs ! i))"
    using posr by (intro sum_list_nonneg) auto
  have step: "scan_shell cs j ((\<Sum>i\<leftarrow>j # js. nfac (cs ! i)) + rest, r)
      = Inr ((\<Sum>i\<leftarrow>js. nfac (cs ! i)) + rest, uplim (cs ! j))"
    using scan_shell_full [OF pos, of "(\<Sum>i\<leftarrow>j # js. nfac (cs ! i)) + rest" r] s0 Cons.prems(3)
    by simp
  show ?case
  proof (cases "js = []")
    case True
    then show ?thesis using step by simp
  next
    case False
    then show ?thesis using step Cons.IH [OF False posr Cons.prems(3)] by simp
  qed
qed

lemma upt_split:
  assumes "a \<le> b" and "b \<le> c"
  shows "[a..<c] = [a..<b] @ [b..<c]"
  using upt_add_eq_append [OF assms(1), of "c - b"] assms(2) by simp

lemma weights_field:
  assumes "ncell < length cells" and "1 \<le> i" and "i \<le> ncell"
  shows "nfac (fold set_weight [1..<ncell + 1] cells ! i) = Cshell (cells ! i)"
    and "lowlim (fold set_weight [1..<ncell + 1] cells ! i) = lowlim (cells ! i)"
    and "uplim (fold set_weight [1..<ncell + 1] cells ! i) = uplim (cells ! i)"
  using weights_nth [OF assms] by simp_all



lemma get_ionisation_radius_scan:
  assumes len: "ncell < length cells"
    and scan: "for_loop (scan_shell (fold set_weight [1..<ncell + 1] cells)) [1..<ncell + 1]
          (const_bondi_Q ion * get_bondi_Q_factor (central_mass ion / MASS_POINT_MASS u), 0)
        = Inr (c, rion)"
  shows "\<exists>cells1 ion1. get_ionisation_radius u ncell t f cells ion = Inr (cells1, ion1, rion)"
  using assms unfolding get_ionisation_radius_def Let_def by simp

lemma cube_inj:
  fixes x y :: real
  assumes "x * x * x = y * y * y"
  shows "x = y"
proof -
  have "root 3 (x ^ 3) = root 3 (y ^ 3)" using assms by (simp add: power3_eq_cube)
  then show ?thesis by (simp add: odd_real_root_power_cancel)
qed

lemma cbrt_cube: "root 3 (x * x * x) = x"
  using odd_real_root_power_cancel [of 3 x] by (simp add: power3_eq_cube)

lemma add_Q_loop_full:
  assumes "\<forall>i\<in>set js. uplim (cs ! i) < INITIAL_IONISATION_RADIUS u"
  shows "for_loop (add_bondi_Q u cs) js Q = Inr (Q + (\<Sum>i\<leftarrow>js. nfac (cs ! i)))"
  using assms
  by (induction js arbitrary: Q) (simp_all add: add_bondi_Q_def Let_def)

lemma add_Q_loop_skip:
  assumes "\<forall>i\<in>set js. INITIAL_IONISATION_RADIUS u \<le> lowlim (cs ! i)
                       \<and> INITIAL_IONISATION_RADIUS u \<le> uplim (cs ! i)"
  shows "for_loop (add_bondi_Q u cs) js Q = Inr Q"
  using assms
  by (induction js arbitrary: Q) (simp_all add: add_bondi_Q_def Let_def)

lemma add_Q_partial:
  assumes "lowlim (cs ! j) < INITIAL_IONISATION_RADIUS u"
    and "INITIAL_IONISATION_RADIUS u \<le> uplim (cs ! j)"
  shows "add_bondi_Q u cs j Q =
     Inr (Q + nfac (cs ! j) *
        ((INITIAL_IONISATION_RADIUS u * INITIAL_IONISATION_RADIUS u * INITIAL_IONISATION_RADIUS u
            - lowlim (cs ! j) * lowlim (cs ! j) * lowlim (cs ! j))
         / (uplim (cs ! j) * uplim (cs ! j) * uplim (cs ! j)
            - lowlim (cs ! j) * lowlim (cs ! j) * lowlim (cs ! j))))"
proof -
  have "lowlim (cs ! j) < uplim (cs ! j)" using assms by linarith
  then have "uplim (cs ! j) * uplim (cs ! j) * uplim (cs ! j)
            - lowlim (cs ! j) * lowlim (cs ! j) * lowlim (cs ! j) \<noteq> 0"
    using cube_strict_mono by fastforce
  then show ?thesis using assms by (simp add: add_bondi_Q_def Let_def fdiv_def)
qed

lemma scan_shell_partial:
  assumes w: "0 < nfac (cs ! j)" and lo: "lowlim (cs ! j) < R"
    and hi: "R \<le> uplim (cs ! j)"
  shows "scan_shell cs j
           (nfac (cs ! j) *
              ((R * R * R - lowlim (cs ! j) * lowlim (cs ! j) * lowlim (cs ! j))
               / (uplim (cs ! j) * uplim (cs ! j) * uplim (cs ! j)
                  - lowlim (cs ! j) * lowlim (cs ! j) * lowlim (cs ! j))), r)
         = Inr (0, R)"
proof -
  let ?a = "lowlim (cs ! j)" and ?b = "uplim (cs ! j)" and ?w = "nfac (cs ! j)"
  let ?D = "?b * ?b * ?b - ?a * ?a * ?a"
  define phi where "phi = (R * R * R - ?a * ?a * ?a) / ?D"
  have N: "0 < R * R * R - ?a * ?a * ?a" using cube_strict_mono [OF lo] by simp
  have ND: "R * R * R - ?a * ?a * ?a \<le> ?D" using cube_mono [OF hi] by simp
  have D: "0 < ?D" using N ND by linarith
  have phi0: "0 < phi" using N D by (simp add: phi_def)
  have phi1: "phi \<le> 1" using ND D by (simp add: phi_def)
  have phiD: "phi * ?D = R * R * R - ?a * ?a * ?a" using D by (simp add: phi_def)
  have C: "0 < ?w * phi" using w phi0 by simp
  have fd: "fdiv (?w * phi) ?w = Inr phi" using w by (simp add: fdiv_def)
  have m: "min 1 phi = phi" using phi1 by (simp add: min_def)
  have zero: "?w * phi - phi * ?w = 0" by simp
  have rion: "(if phi < 1 then
                 (if phi > 0 then root 3 (phi * ?b * ?b * ?b + (1 - phi) * ?a * ?a * ?a)
                  else r)
               else ?b) = R"
  proof (cases "phi < 1")
    case True
    have "phi * ?b * ?b * ?b + (1 - phi) * ?a * ?a * ?a = ?a * ?a * ?a + phi * ?D"
      by (simp add: algebra_simps)
    also have "\<dots> = R * R * R" unfolding phiD by simp
    finally have "phi * ?b * ?b * ?b + (1 - phi) * ?a * ?a * ?a = R * R * R" .
    then show ?thesis using True phi0 cbrt_cube [of R] by simp
  next
    case False
    then have "phi = 1" using phi1 by simp
    then have "R * R * R - ?a * ?a * ?a = ?D" using phiD by simp
    then have "R * R * R = ?b * ?b * ?b" by simp
    then have "R = ?b" by (rule cube_inj)
    then show ?thesis using False by simp
  qed
  have "scan_shell cs j (?w * phi, r) = Inr (0, R)"
    unfolding scan_shell_def Let_def fst_conv snd_conv
    using C by (simp only: if_True fd sum.case m zero rion)
  then show ?thesis unfolding phi_def .
qed

lemma scan_loop_prefix:
  assumes "\<forall>i\<in>set js. 0 < nfac (cs ! i)" and "0 \<le> rest"
  shows "\<exists>r'. for_loop (scan_shell cs) js ((\<Sum>i\<leftarrow>js. nfac (cs ! i)) + rest, r) = Inr (rest, r')"
proof (cases "js = []")
  case True
  then show ?thesis by simp
next
  case False
  then show ?thesis using scan_loop_full [OF False assms, of r] by blast
qed

lemma grid_uplim_mono:
  assumes "grid_ok ncell cells" and "1 \<le> i" and "i \<le> k" and "k \<le> ncell"
  shows "uplim (cells ! i) \<le> uplim (cells ! k)"
  using assms(3,4)
proof (induction k rule: dec_induct)
  case base
  then show ?case by simp
next
  case (step n)
  have n: "1 \<le> n" "n < ncell" using step.hyps assms(2) step.prems by simp_all
  have "uplim (cells ! n) = lowlim (cells ! Suc n)"
    using assms(1) n unfolding grid_ok_iff by blast
  moreover have "lowlim (cells ! Suc n) < uplim (cells ! Suc n)"
    using assms(1) step.prems unfolding grid_ok_iff by simp
  ultimately show ?case using step.IH n by simp
qed

lemma grid_lowlim_after:
  assumes "grid_ok ncell cells" and "1 \<le> j" and "j < i" and "i \<le> ncell"
  shows "uplim (cells ! j) \<le> lowlim (cells ! i)"
proof -
  obtain n where i: "i = Suc n" using assms(3) by (cases i) simp_all
  have n: "j \<le> n" "1 \<le> n" "n < ncell" using assms i by simp_all
  have "uplim (cells ! n) = lowlim (cells ! Suc n)"
    using assms(1) n unfolding grid_ok_iff by blast
  then show ?thesis using grid_uplim_mono [OF assms(1,2) n(1)] n(3) i by simp
qed

lemma straddling_shell:
  assumes grid: "grid_ok ncell cells" and n1: "1 \<le> ncell"
    and lo: "lowlim (cells ! 1) < R" and hi: "R \<le> uplim (cells ! ncell)"
  shows "\<exists>j. 1 \<le> j \<and> j \<le> ncell \<and> lowlim (cells ! j) < R \<and> R \<le> uplim (cells ! j)
     \<and> (\<forall>i. 1 \<le> i \<and> i < j \<longrightarrow> uplim (cells ! i) < R)
     \<and> (\<forall>i. j < i \<and> i \<le> ncell \<longrightarrow> R \<le> lowlim (cells ! i) \<and> R \<le> uplim (cells ! i))"
proof -
  define j where "j = (LEAST i. 1 \<le> i \<and> R \<le> uplim (cells ! i))"
  have ex: "1 \<le> ncell \<and> R \<le> uplim (cells ! ncell)" using n1 hi by simp
  have Pj: "1 \<le> j \<and> R \<le> uplim (cells ! j)"
    unfolding j_def by (rule LeastI [of "\<lambda>i. 1 \<le> i \<and> R \<le> uplim (cells ! i)", OF ex])
  have jn: "j \<le> ncell"
    unfolding j_def by (rule Least_le [of "\<lambda>i. 1 \<le> i \<and> R \<le> uplim (cells ! i)", OF ex])
  have before: "uplim (cells ! i) < R" if "1 \<le> i \<and> i < j" for i
  proof -
    have "\<not> (1 \<le> i \<and> R \<le> uplim (cells ! i))"
      using that not_less_Least [of i "\<lambda>i. 1 \<le> i \<and> R \<le> uplim (cells ! i)"]
      unfolding j_def by blast
    then show ?thesis using that by simp
  qed
  have low: "lowlim (cells ! j) < R"
  proof (cases "j = 1")
    case True
    then show ?thesis using lo by simp
  next
    case False
    then obtain m where m: "j = Suc m" "1 \<le> m" using Pj by (cases j) auto
    have "uplim (cells ! m) = lowlim (cells ! Suc m)"
      using grid m jn unfolding grid_ok_iff by simp
    then show ?thesis using before [of m] m by simp
  qed
  have after: "R \<le> lowlim (cells ! i) \<and> R \<le> uplim (cells ! i)" if "j < i \<and> i \<le> ncell" for i
  proof -
    have a: "uplim (cells ! j) \<le> lowlim (cells ! i)"
      using grid_lowlim_after [OF grid, of j i] Pj that by simp
    have "lowlim (cells ! i) < uplim (cells ! i)"
      using grid that Pj unfolding grid_ok_iff by simp
    then show ?thesis using a Pj by linarith
  qed
  show ?thesis using Pj jn low before after by blast
qed

lemma Cshell_pos:
  assumes "lowlim c < uplim c" and "rho c \<noteq> 0"
  shows "0 < Cshell c"
proof -
  have a: "0 < (uplim c * uplim c * uplim c - lowlim c * lowlim c * lowlim c) / 3"
    using cube_strict_mono [OF assms(1)] by simp
  have b: "0 < rho c * rho c" using assms(2) by (auto simp: zero_less_mult_iff)
  show ?thesis using mult_pos_pos [OF a b] by (simp add: Cshell_def Let_def mult.assoc)
qed

lemma Cshell_same:
  assumes "lowlim c' = lowlim c" and "uplim c' = uplim c" and "rho c' = rho c"
  shows "Cshell c' = Cshell c"
  using assms by (simp add: Cshell_def)

lemma get_bondi_Q_factor_1: "get_bondi_Q_factor 1 = 1"
  by (simp add: get_bondi_Q_factor_def)

lemma bondi_Q_value:
  assumes grid: "grid_ok ncell cells"
    and j: "1 \<le> j" "j \<le> ncell"
    and lo: "lowlim (cells ! j) < INITIAL_IONISATION_RADIUS u"
    and hi: "INITIAL_IONISATION_RADIUS u \<le> uplim (cells ! j)"
    and before: "\<forall>i. 1 \<le> i \<and> i < j \<longrightarrow> uplim (cells ! i) < INITIAL_IONISATION_RADIUS u"
    and after: "\<forall>i. j < i \<and> i \<le> ncell \<longrightarrow>
        INITIAL_IONISATION_RADIUS u \<le> lowlim (cells ! i)
        \<and> INITIAL_IONISATION_RADIUS u \<le> uplim (cells ! i)"
  shows "for_loop (add_bondi_Q u (fold set_weight [1..<ncell + 1] cells)) [1..<ncell + 1] 0
     = Inr ((\<Sum>i\<leftarrow>[1..<j]. Cshell (cells ! i)) + Cshell (cells ! j) *
        ((INITIAL_IONISATION_RADIUS u * INITIAL_IONISATION_RADIUS u * INITIAL_IONISATION_RADIUS u
            - lowlim (cells ! j) * lowlim (cells ! j) * lowlim (cells ! j))
         / (uplim (cells ! j) * uplim (cells ! j) * uplim (cells ! j)
            - lowlim (cells ! j) * lowlim (cells ! j) * lowlim (cells ! j))))"
proof -
  let ?cs = "fold set_weight [1..<ncell + 1] cells"
  let ?R = "INITIAL_IONISATION_RADIUS u"
  have len: "ncell < length cells" using grid unfolding grid_ok_iff by simp
  note f = weights_field [OF len]
  have s1: "[1..<ncell + 1] = [1..<j] @ [j..<ncell + 1]"
    using j by (intro upt_split) simp_all
  have s2: "[j..<ncell + 1] = j # [Suc j..<ncell + 1]"
    using j by (intro upt_conv_Cons) simp
  have b: "\<forall>i\<in>set [1..<j]. uplim (?cs ! i) < ?R"
    using before f(3) j by auto
  have a: "\<forall>i\<in>set [Suc j..<ncell + 1]. ?R \<le> lowlim (?cs ! i) \<and> ?R \<le> uplim (?cs ! i)"
    using after f(2,3) j by auto
  have sum: "(\<Sum>i\<leftarrow>[1..<j]. nfac (?cs ! i)) = (\<Sum>i\<leftarrow>[1..<j]. Cshell (cells ! i))"
    using f(1) j by (intro arg_cong [where f = sum_list] map_cong) auto
  have p1: "for_loop (add_bondi_Q u ?cs) [1..<j] 0 = Inr (\<Sum>i\<leftarrow>[1..<j]. Cshell (cells ! i))"
    using add_Q_loop_full [OF b, of 0] sum by simp
  have lo': "lowlim (?cs ! j) < ?R" and hi': "?R \<le> uplim (?cs ! j)"
    using lo hi f(2,3) [OF j] by simp_all
  have p2: "add_bondi_Q u ?cs j (\<Sum>i\<leftarrow>[1..<j]. Cshell (cells ! i))
     = Inr ((\<Sum>i\<leftarrow>[1..<j]. Cshell (cells ! i)) + Cshell (cells ! j) *
        ((?R * ?R * ?R - lowlim (cells ! j) * lowlim (cells ! j) * lowlim (cells ! j))
         / (uplim (cells ! j) * uplim (cells ! j) * uplim (cells ! j)
            - lowlim (cells ! j) * lowlim (cells ! j) * lowlim (cells ! j))))"
    using add_Q_partial [OF lo' hi'] f [OF j] by simp
  have "for_loop (add_bondi_Q u ?cs) ([1..<j] @ (j # [Suc j..<ncell + 1])) 0
     = Inr ((\<Sum>i\<leftarrow>[1..<j]. Cshell (cells ! i)) + Cshell (cells ! j) *
        ((?R * ?R * ?R - lowlim (cells ! j) * lowlim (cells ! j) * lowlim (cells ! j))
         / (uplim (cells ! j) * uplim (cells ! j) * uplim (cells ! j)
            - lowlim (cells ! j) * lowlim (cells ! j) * lowlim (cells ! j))))"
    unfolding for_loop_append p1 using p2 add_Q_loop_skip [OF a] by simp
  then show ?thesis unfolding s2 [symmetric] s1 [symmetric] .
qed

lemma scan_round_trip:
  assumes len: "ncell < length cells'"
    and j: "1 \<le> j" "j \<le> ncell"
    and lo: "lowlim (cells' ! j) < R" and hi: "R \<le> uplim (cells' ! j)"
    and pos: "\<forall>i. 1 \<le> i \<and> i \<le> ncell \<longrightarrow> 0 < Cshell (cells' ! i)"
  shows "for_loop (scan_shell (fold set_weight [1..<ncell + 1] cells')) [1..<ncell + 1]
     ((\<Sum>i\<leftarrow>[1..<j]. Cshell (cells' ! i)) + Cshell (cells' ! j) *
        ((R * R * R - lowlim (cells' ! j) * lowlim (cells' ! j) * lowlim (cells' ! j))
         / (uplim (cells' ! j) * uplim (cells' ! j) * uplim (cells' ! j)
            - lowlim (cells' ! j) * lowlim (cells' ! j) * lowlim (cells' ! j))), 0)
     = Inr (0, R)"
proof -
  let ?cs = "fold set_weight [1..<ncell + 1] cells'"
  let ?a = "lowlim (cells' ! j)" and ?b = "uplim (cells' ! j)"
  define rest where "rest = Cshell (cells' ! j) *
        ((R * R * R - ?a * ?a * ?a) / (?b * ?b * ?b - ?a * ?a * ?a))"
  note f = weights_field [OF len]
  have s1: "[1..<ncell + 1] = [1..<j] @ [j..<ncell + 1]"
    using j by (intro upt_split) simp_all
  have s2: "[j..<ncell + 1] = j # [Suc j..<ncell + 1]"
    using j by (intro upt_conv_Cons) simp
  have wj: "0 < nfac (?cs ! j)" using pos j f(1) [OF j] by simp
  have N: "0 \<le> R * R * R - ?a * ?a * ?a" using cube_strict_mono [OF lo] by simp
  have D: "0 \<le> ?b * ?b * ?b - ?a * ?a * ?a"
    using cube_strict_mono [OF lo] cube_mono [OF hi] by linarith
  have cj: "0 \<le> Cshell (cells' ! j)" using pos j by (simp add: less_imp_le)
  have rest0: "0 \<le> rest"
    unfolding rest_def using cj N D by (intro mult_nonneg_nonneg divide_nonneg_nonneg)
  have p: "\<forall>i\<in>set [1..<j]. 0 < nfac (?cs ! i)"
    using pos f(1) j by auto
  have sum: "(\<Sum>i\<leftarrow>[1..<j]. nfac (?cs ! i)) = (\<Sum>i\<leftarrow>[1..<j]. Cshell (cells' ! i))"
    using f(1) j by (intro arg_cong [where f = sum_list] map_cong) auto
  obtain r' where p1: "for_loop (scan_shell ?cs) [1..<j]
       ((\<Sum>i\<leftarrow>[1..<j]. Cshell (cells' ! i)) + rest, 0) = Inr (rest, r')"
    using scan_loop_prefix [OF p rest0, of 0] sum by auto
  have lo': "lowlim (?cs ! j) < R" and hi': "R \<le> uplim (?cs ! j)"
    using lo hi f(2,3) [OF j] by simp_all
  have p2: "scan_shell ?cs j (rest, r') = Inr (0, R)"
    using scan_shell_partial [OF wj lo' hi', of r'] f [OF j] unfolding rest_def by simp
  have p3: "for_loop (scan_shell ?cs) (j # [Suc j..<ncell + 1]) (rest, r') = Inr (0, R)"
    using p2 scan_loop_exhausted [of 0 ?cs "[Suc j..<ncell + 1]" R] by simp
  have "for_loop (scan_shell ?cs) ([1..<j] @ (j # [Suc j..<ncell + 1]))
       ((\<Sum>i\<leftarrow>[1..<j]. Cshell (cells' ! i)) + rest, 0) = Inr (0, R)"
    unfolding for_loop_append p1 using p3 by simp
  then show ?thesis unfolding s2 [symmetric] s1 [symmetric] rest_def .
qed

lemma cells_grid_nth:
  "cells_grid ! Suc 0 = grid_shell 1 2" "cells_grid ! 2 = grid_shell 2 3"
  "cells_grid ! 3 = grid_shell 3 4" "length cells_grid = 5"
  by (simp_all add: cells_grid_def)

lemma index_cases_3:
  fixes i :: nat
  assumes "1 \<le> i \<and> i \<le> 3"
  shows "i = 1 \<or> i = 2 \<or> i = 3"
  using assms by arith

lemma cells_grid_ok: "grid_ok 3 cells_grid"
  unfolding grid_ok_iff
proof (intro conjI allI impI)
  show "3 < length cells_grid" by (simp add: cells_grid_nth)
next
  fix i :: nat assume "1 \<le> i \<and> i \<le> 3"
  then have "i = 1 \<or> i = 2 \<or> i = 3" by (rule index_cases_3)
  then show "lowlim (cells_grid ! i) < uplim (cells_grid ! i)"
    by (auto simp: cells_grid_nth grid_shell_def)
next
  fix i :: nat assume "1 \<le> i \<and> i < 3"
  then have "i = 1 \<or> i = 2" by arith
  then show "uplim (cells_grid ! i) = lowlim (cells_grid ! Suc i)"
    by (auto simp: cells_grid_def grid_shell_def)
qed


section \<open>The ionisation radius for a budget of whole shells\<close>



section \<open>Round trip between initialisation and the radius solver\<close>

text \<open>
  Claim C9. On a grid of consecutive shells with positive density and with
  \<open>cells[1]._lowlim < INITIAL_IONISATION_RADIUS \<le> cells[ncell]._uplim\<close>,
  \<^verbatim>\<open>ionisation_initialize\<close> returns, and \<^verbatim>\<open>get_ionisation_radius\<close>, run on the same density
  field with the \<^verbatim>\<open>const_bondi_Q\<close> it computed and with
  \<open>central_mass = MASS_POINT_MASS\<close> (not zero), returns
  \<open>rion = INITIAL_IONISATION_RADIUS\<close>.
\<close>

theorem ionisation_radius_round_trip:
  assumes grid: "grid_ok ncell cells" and n1: "1 \<le> ncell"
    and dens: "\<forall>i. 1 \<le> i \<and> i \<le> ncell \<longrightarrow> 0 < rho (cells ! i)"
    and lo: "lowlim (cells ! 1) < INITIAL_IONISATION_RADIUS u"
    and hi: "INITIAL_IONISATION_RADIUS u \<le> uplim (cells ! ncell)"
    and M: "MASS_POINT_MASS u \<noteq> 0"
    and same: "same_field ncell cells cells'"
  shows "\<exists>cells1 ion. ionisation_initialize u ncell W cells = Inr (cells1, ion)
     \<and> central_mass ion = MASS_POINT_MASS u
     \<and> (\<forall>ion'. const_bondi_Q ion' = const_bondi_Q ion \<and> central_mass ion' = MASS_POINT_MASS u
          \<longrightarrow> (\<exists>cells2 ion2. get_ionisation_radius u ncell t f cells' ion'
                   = Inr (cells2, ion2, INITIAL_IONISATION_RADIUS u)))"
proof -
  let ?R = "INITIAL_IONISATION_RADIUS u"
  have len: "ncell < length cells" using grid unfolding grid_ok_iff by simp
  have len': "ncell < length cells'" using same len unfolding same_field_iff by simp
  from straddling_shell [OF grid n1 lo hi] obtain j where
    j: "1 \<le> j" "j \<le> ncell" and jl: "lowlim (cells ! j) < ?R" and jh: "?R \<le> uplim (cells ! j)"
    and before: "\<forall>i. 1 \<le> i \<and> i < j \<longrightarrow> uplim (cells ! i) < ?R"
    and after: "\<forall>i. j < i \<and> i \<le> ncell \<longrightarrow> ?R \<le> lowlim (cells ! i) \<and> ?R \<le> uplim (cells ! i)"
    by blast
  define Q where "Q = (\<Sum>i\<leftarrow>[1..<j]. Cshell (cells ! i)) + Cshell (cells ! j) *
        ((?R * ?R * ?R - lowlim (cells ! j) * lowlim (cells ! j) * lowlim (cells ! j))
         / (uplim (cells ! j) * uplim (cells ! j) * uplim (cells ! j)
            - lowlim (cells ! j) * lowlim (cells ! j) * lowlim (cells ! j)))"
  have Qloop: "for_loop (add_bondi_Q u (fold set_weight [1..<ncell + 1] cells)) [1..<ncell + 1] 0
     = Inr Q"
    unfolding Q_def by (rule bondi_Q_value [OF grid j jl jh before after])
  obtain cells1 ion where init: "ionisation_initialize u ncell W cells = Inr (cells1, ion)"
    and Qi: "const_bondi_Q ion = Q" and cm: "central_mass ion = MASS_POINT_MASS u"
    unfolding ionisation_initialize_def Let_def using len Qloop by simp
  have sameC: "Cshell (cells' ! i) = Cshell (cells ! i)" if "1 \<le> i \<and> i \<le> ncell" for i
    using same that unfolding same_field_iff by (intro Cshell_same) simp_all
  have samej: "lowlim (cells' ! j) = lowlim (cells ! j)" "uplim (cells' ! j) = uplim (cells ! j)"
    using same j unfolding same_field_iff by simp_all
  have pos': "\<forall>i. 1 \<le> i \<and> i \<le> ncell \<longrightarrow> 0 < Cshell (cells' ! i)"
  proof (intro allI impI)
    fix i assume i: "1 \<le> i \<and> i \<le> ncell"
    have "lowlim (cells ! i) < uplim (cells ! i)" using grid i unfolding grid_ok_iff by simp
    moreover have "rho (cells ! i) \<noteq> 0" using dens i by fastforce
    ultimately show "0 < Cshell (cells' ! i)" using Cshell_pos sameC [OF i] by simp
  qed
  have sum: "(\<Sum>i\<leftarrow>[1..<j]. Cshell (cells' ! i)) = (\<Sum>i\<leftarrow>[1..<j]. Cshell (cells ! i))"
    using sameC j by (intro arg_cong [where f = sum_list] map_cong) auto
  have scan: "for_loop (scan_shell (fold set_weight [1..<ncell + 1] cells')) [1..<ncell + 1] (Q, 0)
     = Inr (0, ?R)"
    using scan_round_trip [OF len' j, of ?R] jl jh pos'
    unfolding Q_def sum samej sameC [of j, OF conjI [OF j]] by simp
  have run: "\<exists>cells2 ion2. get_ionisation_radius u ncell t f cells' ion' = Inr (cells2, ion2, ?R)"
    if "const_bondi_Q ion' = const_bondi_Q ion \<and> central_mass ion' = MASS_POINT_MASS u" for ion'
  proof -
    have "const_bondi_Q ion' * get_bondi_Q_factor (central_mass ion' / MASS_POINT_MASS u) = Q"
      using that Qi M by (simp add: get_bondi_Q_factor_1)
    then show ?thesis
      using get_ionisation_radius_scan [OF len', of ion' u 0 ?R t f] scan by simp
  qed
  show ?thesis using init cm run by blast
qed

text \<open>The theorem on the uniform grid, for the initial radius \<open>5/2\<close>.\<close>

theorem ionisation_radius_round_trip_witness:
  "grid_ok 3 cells_grid \<and> (1::nat) \<le> 3
   \<and> 0 < rho (cells_grid ! 1) \<and> 0 < rho (cells_grid ! 2) \<and> 0 < rho (cells_grid ! 3)
   \<and> lowlim (cells_grid ! 1) < INITIAL_IONISATION_RADIUS units_grid
   \<and> INITIAL_IONISATION_RADIUS units_grid \<le> uplim (cells_grid ! 3)
   \<and> MASS_POINT_MASS units_grid \<noteq> 0
   \<and> same_field 3 cells_grid cells_grid
   \<and> INITIAL_IONISATION_RADIUS units_grid = 5 / 2
   \<and> (\<exists>cells1 ion cells2 ion2.
         ionisation_initialize units_grid 3 1 cells_grid = Inr (cells1, ion)
         \<and> get_ionisation_radius units_grid 3 0 1 cells_grid ion = Inr (cells2, ion2, 5 / 2))"
proof -
  have n1: "(1::nat) \<le> 3" by simp
  have rho: "0 < rho (cells_grid ! 1)" "0 < rho (cells_grid ! 2)" "0 < rho (cells_grid ! 3)"
    by (simp_all add: cells_grid_nth grid_shell_def)
  have dens: "\<forall>i. 1 \<le> i \<and> i \<le> 3 \<longrightarrow> 0 < rho (cells_grid ! i)"
  proof (intro allI impI)
    fix i :: nat assume "1 \<le> i \<and> i \<le> 3"
    then have "i = 1 \<or> i = 2 \<or> i = 3" by (rule index_cases_3)
    then show "0 < rho (cells_grid ! i)" using rho by auto
  qed
  have R: "INITIAL_IONISATION_RADIUS units_grid = 5 / 2" by (simp add: units_grid_def)
  have lo: "lowlim (cells_grid ! 1) < INITIAL_IONISATION_RADIUS units_grid"
    and hi: "INITIAL_IONISATION_RADIUS units_grid \<le> uplim (cells_grid ! 3)"
    unfolding R by (simp_all add: cells_grid_nth grid_shell_def)
  have M: "MASS_POINT_MASS units_grid \<noteq> 0" by (simp add: units_grid_def units_ex_def)
  have same: "same_field 3 cells_grid cells_grid" by (simp add: same_field_iff)
  from ionisation_radius_round_trip [OF cells_grid_ok n1 dens lo hi M same, of 1 0 1]
  obtain cells1 ion where init: "ionisation_initialize units_grid 3 1 cells_grid = Inr (cells1, ion)"
    and cm: "central_mass ion = MASS_POINT_MASS units_grid"
    and run: "\<forall>ion'. const_bondi_Q ion' = const_bondi_Q ion
                    \<and> central_mass ion' = MASS_POINT_MASS units_grid
          \<longrightarrow> (\<exists>cells2 ion2. get_ionisation_radius units_grid 3 0 1 cells_grid ion'
                   = Inr (cells2, ion2, INITIAL_IONISATION_RADIUS units_grid))"
    by blast
  from run [rule_format, of ion] cm obtain cells2 ion2 where
    "get_ionisation_radius units_grid 3 0 1 cells_grid ion = Inr (cells2, ion2, 5 / 2)"
    unfolding R by auto
  then show ?thesis using cells_grid_ok n1 rho lo hi M same R init by blast
qed

end
